theory Spec2Isabelle
  imports Main
begin

section \<open>Data model (socket/types.ts)\<close>

text \<open>
  Payloads are opaque to the manager (\<open>any\<close> in the source); a string stands for
  them. A callback is a function object: the manager only compares it by identity
  (the \<open>Set\<close> of listeners) and calls it. Its identity is \<open>cb_id\<close>; the one
  piece of behaviour that the manager can observe is whether the call returns or
  throws, \<open>cb_throws\<close>. A callback is taken not to call back into the manager.
\<close>

type_synonym data = string
type_synonym conn_id = nat

datatype callback = Callback (cb_id: nat) (cb_throws: bool)

text \<open>\<open>SocketOptions\<close>: every property is optional; \<open>None\<close> is a missing property.\<close>

record SocketOptions =
  reconnectionAttempts :: "nat option"
  reconnectionDelay :: "nat option"
  timeout :: "nat option"
  autoConnect :: "bool option"
  headers :: "(string \<times> string) list option"
  params :: "(string \<times> string) list option"

text \<open>
  The listeners that the manager registers on a socket.io socket, one constructor per
  closure of the source: the three of \<open>setupConnectionHandlers\<close>, the fan-out
  listener of \<open>subscribe\<close> (it captures the event name), and the two \<open>once\<close>
  listeners of \<open>waitForConnection\<close>.
\<close>

datatype handler =
    OnConnect
  | OnDisconnect
  | OnConnectError
  | FanOut string
  | OnceConnect
  | OnceConnectError

text \<open>
  The socket.io client is a black box; the model keeps what the manager does to it:
  the address and options given to \<open>io\<close>, the registered listeners in order of
  registration, whether \<open>socket.disconnect()\<close> was called, and what was emitted.
\<close>

record Socket =
  uri :: string
  io_options :: SocketOptions
  handlers :: "(string \<times> handler) list"
  closed :: bool
  emitted :: "(string \<times> data) list"

text \<open>
  \<open>SocketConnection\<close>. \<open>listeners\<close> is a \<open>Map<string, Set<callback>>\<close>: a set is
  the list of its members in insertion order, which is the order of \<open>forEach\<close>.
\<close>

record SocketConnection =
  socket :: Socket
  url :: string
  namespace :: string
  reconnectAttempts :: nat
  connected :: bool
  listeners :: "string \<rightharpoonup> callback list"

datatype error =
    ConnectionTimeout string
  | TransportError data
  | NotConnected string

datatype promise = Pending | Resolved | Rejected error

text \<open>
  An \<open>async\<close> method runs until its first \<open>await\<close> on a promise that is not
  settled: \<open>Suspended cid\<close> is a call that waits for the handshake of record \<open>cid\<close>.
\<close>

datatype 'a outcome = Returned 'a | Thrown error | Suspended conn_id

text \<open>
  The manager. \<open>connections\<close> is the pool, a \<open>Map\<close> from key to connection
  object. Connection objects are shared between the pool and the closures that were
  registered on their sockets, so they live in a store \<open>heap\<close> and the pool holds
  their addresses. \<open>waits\<close> and \<open>timers\<close> are the promise and the timer of the one
  \<open>waitForConnection\<close> call made for a record; a timer is the time at which it is
  due, in milliseconds of the clock \<open>now\<close>. \<open>invoked\<close> is the trace of the calls
  of subscriber callbacks.
\<close>

record SocketManager =
  connections :: "string \<rightharpoonup> conn_id"
  heap :: "conn_id \<rightharpoonup> SocketConnection"
  next_id :: conn_id
  waits :: "conn_id \<rightharpoonup> promise"
  timers :: "conn_id \<rightharpoonup> nat"
  now :: nat
  invoked :: "(callback \<times> data) list"

definition init :: SocketManager where
  "init = \<lparr>connections = Map.empty, heap = Map.empty, next_id = 0,
            waits = Map.empty, timers = Map.empty, now = 0, invoked = []\<rparr>"

section \<open>SocketManager (socket/SocketManager.ts)\<close>

definition defaultOptions :: SocketOptions where
  "defaultOptions = \<lparr>reconnectionAttempts = Some 3, reconnectionDelay = Some 1000,
     timeout = Some 5000, autoConnect = Some True, headers = Some [], params = Some []\<rparr>"

text \<open>\<open>{ ...a, ...b }\<close>: a property of \<open>b\<close> that is present wins.\<close>

definition orElse :: "'a option \<Rightarrow> 'a option \<Rightarrow> 'a option" where
  "orElse b a = (case b of None \<Rightarrow> a | Some v \<Rightarrow> Some v)"

definition spread :: "SocketOptions \<Rightarrow> SocketOptions option \<Rightarrow> SocketOptions" where
  "spread a ob = (case ob of
      None \<Rightarrow> a
    | Some b \<Rightarrow>
       \<lparr>reconnectionAttempts = orElse (reconnectionAttempts b) (reconnectionAttempts a),
        reconnectionDelay = orElse (reconnectionDelay b) (reconnectionDelay a),
        timeout = orElse (timeout b) (timeout a),
        autoConnect = orElse (autoConnect b) (autoConnect a),
        headers = orElse (headers b) (headers a),
        params = orElse (params b) (params a)\<rparr>)"

text \<open>\<open>x || d\<close> on an optional number: \<open>undefined\<close> and \<open>0\<close> are falsy.\<close>

definition num_or :: "nat option \<Rightarrow> nat \<Rightarrow> nat" where
  "num_or x d = (case x of None \<Rightarrow> d | Some n \<Rightarrow> if n = 0 then d else n)"

definition getConnectionKey :: "string \<Rightarrow> string \<Rightarrow> string" where
  "getConnectionKey u ns = u @ ns"

subsection \<open>The socket.io calls the manager makes\<close>

definition io :: "string \<Rightarrow> SocketOptions \<Rightarrow> Socket" where
  "io address opts =
     \<lparr>uri = address, io_options = opts, handlers = [], closed = False, emitted = []\<rparr>"

definition socket_on :: "Socket \<Rightarrow> string \<Rightarrow> handler \<Rightarrow> Socket" where
  "socket_on sk name h = sk\<lparr>handlers := handlers sk @ [(name, h)]\<rparr>"

text \<open>\<open>socket.off(name)\<close> with no listener argument removes every listener of the event.\<close>

definition socket_off :: "Socket \<Rightarrow> string \<Rightarrow> Socket" where
  "socket_off sk name = sk\<lparr>handlers := filter (\<lambda>(n, h). n \<noteq> name) (handlers sk)\<rparr>"

definition socket_emit :: "Socket \<Rightarrow> string \<Rightarrow> data \<Rightarrow> Socket" where
  "socket_emit sk name d = sk\<lparr>emitted := emitted sk @ [(name, d)]\<rparr>"

text \<open>
  What \<open>socket.disconnect()\<close> does to the socket itself. The \<open>disconnect\<close> event that
  the library emits from within that call when the socket is connected is added where
  the manager's listeners can run, in \<open>socket_disconnect_call\<close> below.
\<close>

definition socket_disconnect :: "Socket \<Rightarrow> Socket" where
  "socket_disconnect sk = sk\<lparr>closed := True\<rparr>"

subsection \<open>Sets of callbacks\<close>

definition set_add :: "callback list \<Rightarrow> callback \<Rightarrow> callback list" where
  "set_add cbs cb = (if cb \<in> set cbs then cbs else cbs @ [cb])"

definition set_delete :: "callback list \<Rightarrow> callback \<Rightarrow> callback list" where
  "set_delete cbs cb = removeAll cb cbs"

text \<open>
  \<open>eventListeners.forEach((listener) => listener(data))\<close>: the callbacks are called in
  insertion order; an exception thrown by one of them leaves \<open>forEach\<close>. The result
  is the trace and whether an exception escaped.
\<close>

fun forEach :: "callback list \<Rightarrow> data \<Rightarrow> (callback \<times> data) list \<Rightarrow> (callback \<times> data) list \<times> bool" where
  "forEach [] d tr = (tr, False)"
| "forEach (cb # cbs) d tr =
     (if cb_throws cb then (tr @ [(cb, d)], True) else forEach cbs d (tr @ [(cb, d)]))"


subsection \<open>setupConnectionHandlers, waitForConnection\<close>

definition setupConnectionHandlers :: "SocketConnection \<Rightarrow> SocketConnection" where
  "setupConnectionHandlers c =
     c\<lparr>socket :=
          socket_on (socket_on (socket_on (socket c) ''connect'' OnConnect)
            ''disconnect'' OnDisconnect) ''connect_error'' OnConnectError\<rparr>"

definition setTimeout_delay :: "nat option \<Rightarrow> nat" where
  "setTimeout_delay d = (case d of None \<Rightarrow> 0 | Some ms \<Rightarrow> ms)"

definition waitForConnection :: "SocketManager \<Rightarrow> conn_id \<Rightarrow> SocketManager" where
  "waitForConnection s cid = (case heap s cid of
      None \<Rightarrow> s
    | Some c \<Rightarrow>
        if connected c then s\<lparr>waits := (waits s)(cid \<mapsto> Resolved)\<rparr>
        else s\<lparr>heap := (heap s)(cid \<mapsto>
                  c\<lparr>socket := socket_on (socket_on (socket c) ''connect'' OnceConnect)
                                 ''connect_error'' OnceConnectError\<rparr>),
               waits := (waits s)(cid \<mapsto> Pending),
               timers := (timers s)(cid \<mapsto> now s + setTimeout_delay (timeout defaultOptions))\<rparr>)"

text \<open>\<open>await\<close> on the promise of \<open>waitForConnection\<close>.\<close>

definition await_connection :: "SocketManager \<Rightarrow> conn_id \<Rightarrow> conn_id outcome" where
  "await_connection s cid = (case waits s cid of
      Some Resolved \<Rightarrow> Returned cid
    | Some (Rejected e) \<Rightarrow> Thrown e
    | _ \<Rightarrow> Suspended cid)"

subsection \<open>connect, getOrCreateConnection\<close>

definition existingConnected :: "SocketManager \<Rightarrow> string \<Rightarrow> conn_id option" where
  "existingConnected s key = (case connections s key of
      None \<Rightarrow> None
    | Some cid \<Rightarrow> (case heap s cid of
         None \<Rightarrow> None
       | Some c \<Rightarrow> if connected c then Some cid else None))"

definition newConnection :: "string \<Rightarrow> string \<Rightarrow> SocketOptions option \<Rightarrow> SocketConnection" where
  "newConnection u ns opts =
     \<lparr>socket = io (u @ ns) (spread defaultOptions opts), url = u, namespace = ns,
      reconnectAttempts = 0, connected = False, listeners = Map.empty\<rparr>"

definition connect :: "SocketManager \<Rightarrow> string \<Rightarrow> string \<Rightarrow> SocketOptions option
    \<Rightarrow> SocketManager \<times> conn_id outcome" where
  "connect s u ns opts =
     (let connectionKey = getConnectionKey u ns in
      case existingConnected s connectionKey of
        Some cid \<Rightarrow> (s, Returned cid)
      | None \<Rightarrow>
         (let connection = setupConnectionHandlers (newConnection u ns opts);
              cid = next_id s;
              s1 = s\<lparr>heap := (heap s)(cid \<mapsto> connection), next_id := Suc cid,
                     connections := (connections s)(connectionKey \<mapsto> cid)\<rparr>;
              s2 = waitForConnection s1 cid
          in (s2, await_connection s2 cid)))"

definition getOrCreateConnection :: "SocketManager \<Rightarrow> string \<Rightarrow> string \<Rightarrow> SocketOptions option
    \<Rightarrow> SocketManager \<times> conn_id outcome" where
  "getOrCreateConnection s u ns opts =
     (let connectionKey = getConnectionKey u ns in
      case existingConnected s connectionKey of
        Some cid \<Rightarrow> (s, Returned cid)
      | None \<Rightarrow> connect s u ns opts)"

subsection \<open>subscribe, unsubscribe, publish\<close>

text \<open>The body of \<open>subscribe\<close> after its \<open>await\<close>, on the connection it got.\<close>

definition addListener :: "SocketConnection \<Rightarrow> string \<Rightarrow> callback \<Rightarrow> SocketConnection" where
  "addListener c event cb =
     (let c1 = (if listeners c event = None
                then c\<lparr>listeners := (listeners c)(event \<mapsto> []),
                       socket := socket_on (socket c) event (FanOut event)\<rparr>
                else c)
      in case listeners c1 event of
           None \<Rightarrow> c1
         | Some eventListeners \<Rightarrow>
             c1\<lparr>listeners := (listeners c1)(event \<mapsto> set_add eventListeners cb)\<rparr>)"

definition on_record :: "SocketManager \<Rightarrow> conn_id \<Rightarrow> (SocketConnection \<Rightarrow> SocketConnection)
    \<Rightarrow> SocketManager" where
  "on_record s cid f = (case heap s cid of
      None \<Rightarrow> s
    | Some c \<Rightarrow> s\<lparr>heap := (heap s)(cid \<mapsto> f c)\<rparr>)"

definition subscribe_body :: "SocketManager \<Rightarrow> conn_id \<Rightarrow> string \<Rightarrow> callback \<Rightarrow> SocketManager" where
  "subscribe_body s cid event cb = on_record s cid (\<lambda>c. addListener c event cb)"

definition subscribe :: "SocketManager \<Rightarrow> string \<Rightarrow> string \<Rightarrow> string \<Rightarrow> callback
    \<Rightarrow> SocketOptions option \<Rightarrow> SocketManager \<times> unit outcome" where
  "subscribe s u ns event cb opts = (case getOrCreateConnection s u ns opts of
      (s1, Returned cid) \<Rightarrow> (subscribe_body s1 cid event cb, Returned ())
    | (s1, Thrown e) \<Rightarrow> (s1, Thrown e)
    | (s1, Suspended cid) \<Rightarrow> (s1, Suspended cid))"

text \<open>A suspended \<open>subscribe\<close> that is resumed when the promise it waits for settles.\<close>

definition subscribe_resume :: "SocketManager \<Rightarrow> conn_id \<Rightarrow> string \<Rightarrow> callback
    \<Rightarrow> SocketManager \<times> unit outcome" where
  "subscribe_resume s cid event cb = (case await_connection s cid of
      Returned c \<Rightarrow> (subscribe_body s c event cb, Returned ())
    | Thrown e \<Rightarrow> (s, Thrown e)
    | Suspended c \<Rightarrow> (s, Suspended c))"

definition removeListener :: "SocketConnection \<Rightarrow> string \<Rightarrow> callback option \<Rightarrow> SocketConnection" where
  "removeListener c event callback = (case callback of
      Some cb \<Rightarrow> (case listeners c event of
          None \<Rightarrow> c
        | Some eventListeners \<Rightarrow>
            (let remaining = set_delete eventListeners cb in
             if length remaining = 0
             then c\<lparr>listeners := (listeners c)(event := None),
                    socket := socket_off (socket c) event\<rparr>
             else c\<lparr>listeners := (listeners c)(event \<mapsto> remaining)\<rparr>))
    | None \<Rightarrow>
        if listeners c event \<noteq> None
        then c\<lparr>listeners := (listeners c)(event := None),
               socket := socket_off (socket c) event\<rparr>
        else c)"

definition unsubscribe :: "SocketManager \<Rightarrow> string \<Rightarrow> string \<Rightarrow> string \<Rightarrow> callback option
    \<Rightarrow> SocketOptions option \<Rightarrow> SocketManager \<times> unit outcome" where
  "unsubscribe s u ns event callback opts =
     (case connections s (getConnectionKey u ns) of
        None \<Rightarrow> (s, Returned ())
      | Some cid \<Rightarrow> (on_record s cid (\<lambda>c. removeListener c event callback), Returned ()))"

text \<open>The body of \<open>publish\<close> after its \<open>await\<close>.\<close>

definition publish_body :: "SocketManager \<Rightarrow> conn_id \<Rightarrow> string \<Rightarrow> string \<Rightarrow> string \<Rightarrow> data
    \<Rightarrow> SocketManager \<times> unit outcome" where
  "publish_body s cid u ns event d = (case heap s cid of
      None \<Rightarrow> (s, Thrown (NotConnected (u @ ns)))
    | Some c \<Rightarrow>
        if \<not> connected c then (s, Thrown (NotConnected (u @ ns)))
        else (s\<lparr>heap := (heap s)(cid \<mapsto> c\<lparr>socket := socket_emit (socket c) event d\<rparr>)\<rparr>,
              Returned ()))"

definition publish :: "SocketManager \<Rightarrow> string \<Rightarrow> string \<Rightarrow> string \<Rightarrow> data
    \<Rightarrow> SocketOptions option \<Rightarrow> SocketManager \<times> unit outcome" where
  "publish s u ns event d opts = (case getOrCreateConnection s u ns opts of
      (s1, Returned cid) \<Rightarrow> publish_body s1 cid u ns event d
    | (s1, Thrown e) \<Rightarrow> (s1, Thrown e)
    | (s1, Suspended cid) \<Rightarrow> (s1, Suspended cid))"

definition publish_resume :: "SocketManager \<Rightarrow> conn_id \<Rightarrow> string \<Rightarrow> string \<Rightarrow> string \<Rightarrow> data
    \<Rightarrow> SocketManager \<times> unit outcome" where
  "publish_resume s cid u ns event d = (case await_connection s cid of
      Returned c \<Rightarrow> publish_body s c u ns event d
    | Thrown e \<Rightarrow> (s, Thrown e)
    | Suspended c \<Rightarrow> (s, Suspended c))"

subsection \<open>Events of a socket\<close>

text \<open>
  A promise is settled once: \<open>resolve\<close> and \<open>reject\<close> on a settled promise do nothing.
\<close>

definition settle :: "SocketManager \<Rightarrow> conn_id \<Rightarrow> promise \<Rightarrow> SocketManager" where
  "settle s cid p = (case waits s cid of
      Some Pending \<Rightarrow> s\<lparr>waits := (waits s)(cid \<mapsto> p)\<rparr>
    | _ \<Rightarrow> s)"

definition clearTimeout :: "SocketManager \<Rightarrow> conn_id \<Rightarrow> SocketManager" where
  "clearTimeout s cid = s\<lparr>timers := (timers s)(cid := None)\<rparr>"

text \<open>
  One listener of the socket of record \<open>cid\<close> is called with the payload \<open>d\<close>. The
  result says whether the listener threw. A \<open>once\<close> listener is unregistered before
  it runs.
\<close>

definition run_handler :: "SocketManager \<Rightarrow> conn_id \<Rightarrow> handler \<Rightarrow> data \<Rightarrow> SocketManager \<times> bool" where
  "run_handler s cid h d = (case heap s cid of
      None \<Rightarrow> (s, False)
    | Some c \<Rightarrow> (case h of
        OnConnect \<Rightarrow>
          (s\<lparr>heap := (heap s)(cid \<mapsto> c\<lparr>connected := True, reconnectAttempts := 0\<rparr>)\<rparr>, False)
      | OnDisconnect \<Rightarrow>
          (s\<lparr>heap := (heap s)(cid \<mapsto> c\<lparr>connected := False\<rparr>)\<rparr>, False)
      | OnConnectError \<Rightarrow>
          (let c1 = c\<lparr>reconnectAttempts := reconnectAttempts c + 1, connected := False\<rparr> in
           if reconnectAttempts c1 \<ge> num_or (reconnectionAttempts defaultOptions) 3
           then (s\<lparr>heap := (heap s)(cid \<mapsto> c1\<lparr>socket := socket_disconnect (socket c1)\<rparr>),
                   connections := (connections s)
                     (getConnectionKey (url c1) (namespace c1) := None)\<rparr>, False)
           else (s\<lparr>heap := (heap s)(cid \<mapsto> c1)\<rparr>, False))
      | FanOut event \<Rightarrow> (case listeners c event of
            None \<Rightarrow> (s, False)
          | Some eventListeners \<Rightarrow>
              (case forEach eventListeners d (invoked s) of
                 (tr, threw) \<Rightarrow> (s\<lparr>invoked := tr\<rparr>, threw)))
      | OnceConnect \<Rightarrow>
          (settle (clearTimeout
             (s\<lparr>heap := (heap s)(cid \<mapsto> c\<lparr>socket := (socket c)\<lparr>handlers :=
                  remove1 (''connect'', OnceConnect) (handlers (socket c))\<rparr>\<rparr>)\<rparr>) cid)
             cid Resolved, False)
      | OnceConnectError \<Rightarrow>
          (settle (clearTimeout
             (s\<lparr>heap := (heap s)(cid \<mapsto> c\<lparr>socket := (socket c)\<lparr>handlers :=
                  remove1 (''connect_error'', OnceConnectError) (handlers (socket c))\<rparr>\<rparr>)\<rparr>) cid)
             cid (Rejected (TransportError d)), False)))"

text \<open>
  The emitter calls the listeners of an event in order of registration, on a copy of the
  list taken when the event arrives; a listener that throws ends the round.
\<close>

fun run_handlers :: "SocketManager \<Rightarrow> conn_id \<Rightarrow> handler list \<Rightarrow> data \<Rightarrow> SocketManager \<times> bool" where
  "run_handlers s cid [] d = (s, False)"
| "run_handlers s cid (h # hs) d = (case run_handler s cid h d of
      (s1, threw) \<Rightarrow> if threw then (s1, True) else run_handlers s1 cid hs d)"

definition registered :: "Socket \<Rightarrow> string \<Rightarrow> handler list" where
  "registered sk name = map snd (filter (\<lambda>(n, h). n = name) (handlers sk))"

text \<open>The socket of record \<open>cid\<close> receives the event \<open>name\<close> with payload \<open>d\<close>.\<close>

definition deliver :: "SocketManager \<Rightarrow> conn_id \<Rightarrow> string \<Rightarrow> data \<Rightarrow> SocketManager \<times> bool" where
  "deliver s cid name d = (case heap s cid of
      None \<Rightarrow> (s, False)
    | Some c \<Rightarrow> run_handlers s cid (registered (socket c) name) d)"

subsection \<open>disconnect\<close>

text \<open>
  \<open>socket.disconnect()\<close> called by the manager's \<open>disconnect\<close>. On a connected socket
  the library emits \<open>disconnect\<close> with the reason \<open>io client disconnect\<close> before the call
  returns, so the listeners of that event run inside the call, and one that throws makes
  the call throw. The library's own flag is not part of the model: the record's
  \<open>connected\<close> flag, which the listeners of \<open>setupConnectionHandlers\<close> keep equal to
  it, stands for it. In the \<open>connect_error\<close> listener the socket is not connected, and
  \<open>socket.disconnect()\<close> there emits nothing.
\<close>

definition socket_disconnect_call :: "SocketManager \<Rightarrow> conn_id \<Rightarrow> SocketManager \<times> bool" where
  "socket_disconnect_call s cid = (case heap s cid of
      None \<Rightarrow> (s, False)
    | Some c \<Rightarrow>
        (let s1 = s\<lparr>heap := (heap s)(cid \<mapsto> c\<lparr>socket := socket_disconnect (socket c)\<rparr>)\<rparr>
         in if connected c then deliver s1 cid ''disconnect'' ''io client disconnect''
            else (s1, False)))"

text \<open>
  \<open>disconnect\<close> returns nothing; the result is the manager after the call. When
  \<open>socket.disconnect()\<close> throws, the exception leaves \<open>disconnect\<close> before the pool
  entry is deleted; \<open>disconnect_throws\<close> says whether it does.
\<close>

definition disconnect :: "SocketManager \<Rightarrow> string \<Rightarrow> string \<Rightarrow> SocketManager" where
  "disconnect s u ns =
     (let connectionKey = getConnectionKey u ns in
      case connections s connectionKey of
        None \<Rightarrow> s
      | Some cid \<Rightarrow> (case socket_disconnect_call s cid of
          (s1, threw) \<Rightarrow>
            if threw then s1
            else s1\<lparr>connections := (connections s1)(connectionKey := None)\<rparr>))"

definition disconnect_throws :: "SocketManager \<Rightarrow> string \<Rightarrow> string \<Rightarrow> bool" where
  "disconnect_throws s u ns = (case connections s (getConnectionKey u ns) of
      None \<Rightarrow> False
    | Some cid \<Rightarrow> snd (socket_disconnect_call s cid))"

subsection \<open>Timers\<close>

text \<open>The callback given to \<open>setTimeout\<close> in \<open>waitForConnection\<close>.\<close>

definition timer_fired :: "SocketManager \<Rightarrow> conn_id \<Rightarrow> SocketManager" where
  "timer_fired s cid = (case heap s cid of
      None \<Rightarrow> s
    | Some c \<Rightarrow>
        settle (clearTimeout
          (s\<lparr>heap := (heap s)(cid \<mapsto>
              c\<lparr>socket := socket_off (socket_off (socket c) ''connect'') ''connect_error''\<rparr>)\<rparr>) cid)
          cid (Rejected (ConnectionTimeout (url c @ namespace c))))"

fun fire_due :: "SocketManager \<Rightarrow> conn_id list \<Rightarrow> SocketManager" where
  "fire_due s [] = s"
| "fire_due s (cid # cids) =
     fire_due (case timers s cid of
                 None \<Rightarrow> s
               | Some due \<Rightarrow> if due \<le> now s then timer_fired s cid else s) cids"

text \<open>\<open>ms\<close> milliseconds pass with no socket event: the timers that are due fire.\<close>

definition advance :: "SocketManager \<Rightarrow> nat \<Rightarrow> SocketManager" where
  "advance s ms = fire_due (s\<lparr>now := now s + ms\<rparr>) [0..<next_id s]"

section \<open>FiveMSocketAdapter: the socketDisconnect export\<close>










section \<open>Observations and the registry invariant\<close>

definition is_fanout :: "handler \<Rightarrow> bool" where
  "is_fanout h = (case h of FanOut e \<Rightarrow> True | _ \<Rightarrow> False)"

text \<open>The wire-level listeners of an event: the fan-out listeners registered for it.\<close>

definition wire_listeners :: "SocketConnection \<Rightarrow> string \<Rightarrow> handler list" where
  "wire_listeners c e = filter is_fanout (registered (socket c) e)"

text \<open>The callback set of an event; an event with no map entry has the empty set.\<close>

definition callbacks :: "SocketConnection \<Rightarrow> string \<Rightarrow> callback list" where
  "callbacks c e = (case listeners c e of None \<Rightarrow> [] | Some cbs \<Rightarrow> cbs)"

definition wire_of :: "SocketManager \<Rightarrow> conn_id \<Rightarrow> string \<Rightarrow> handler list" where
  "wire_of s cid e = (case heap s cid of None \<Rightarrow> [] | Some c \<Rightarrow> wire_listeners c e)"

definition callbacks_of :: "SocketManager \<Rightarrow> conn_id \<Rightarrow> string \<Rightarrow> callback list" where
  "callbacks_of s cid e = (case heap s cid of None \<Rightarrow> [] | Some c \<Rightarrow> callbacks c e)"

definition entry_of :: "SocketManager \<Rightarrow> conn_id \<Rightarrow> string \<Rightarrow> callback list option" where
  "entry_of s cid e = (case heap s cid of None \<Rightarrow> None | Some c \<Rightarrow> listeners c e)"

definition socket_of :: "SocketManager \<Rightarrow> conn_id \<Rightarrow> Socket option" where
  "socket_of s cid = map_option socket (heap s cid)"

text \<open>
  The invariant of a record's registry: an event has one wire-level listener, its own
  fan-out listener, when its callback set is not empty, and none otherwise; the map
  has no entry with an empty set; a set holds a callback once.
\<close>

definition registry_inv :: "SocketConnection \<Rightarrow> bool" where
  "registry_inv c = (\<forall>e.
      wire_listeners c e = (if callbacks c e = [] then [] else [FanOut e])
    \<and> listeners c e \<noteq> Some []
    \<and> distinct (callbacks c e))"

definition manager_inv :: "SocketManager \<Rightarrow> bool" where
  "manager_inv s = (\<forall>cid c. heap s cid = Some c \<longrightarrow> registry_inv c)"

section \<open>Reachable states\<close>

text \<open>
  The listeners of the socket of a record that \<open>connect\<close> has just created: the three
  of \<open>setupConnectionHandlers\<close> and the two of \<open>waitForConnection\<close>.
\<close>

definition pending_handlers :: "(string \<times> handler) list" where
  "pending_handlers =
     [(''connect'', OnConnect), (''disconnect'', OnDisconnect), (''connect_error'', OnConnectError),
      (''connect'', OnceConnect), (''connect_error'', OnceConnectError)]"

text \<open>
  A record is in order when its registry satisfies the invariant and, as long as the timer
  of its \<open>waitForConnection\<close> is armed, it is as \<open>connect\<close> left it: the promise is
  pending, nothing is subscribed, and the flag is false.
\<close>

definition record_ok :: "SocketManager \<Rightarrow> conn_id \<Rightarrow> SocketConnection \<Rightarrow> bool" where
  "record_ok s cid c =
     (registry_inv c
      \<and> (timers s cid \<noteq> None \<longrightarrow>
           handlers (socket c) = pending_handlers \<and> listeners c = Map.empty
         \<and> \<not> connected c \<and> waits s cid = Some Pending))"

definition manager_ok :: "SocketManager \<Rightarrow> bool" where
  "manager_ok s = (\<forall>cid c. heap s cid = Some c \<longrightarrow> record_ok s cid c)"

text \<open>
  The states of the manager that calls of its public methods, resumptions of suspended
  calls, events of the sockets and the passing of time lead to from the initial state.
\<close>

inductive reachable :: "SocketManager \<Rightarrow> bool" where
  r_init: "reachable init"
| r_connect: "reachable s \<Longrightarrow> reachable (fst (connect s u ns opts))"
| r_subscribe: "reachable s \<Longrightarrow> reachable (fst (subscribe s u ns e cb opts))"
| r_subscribe_resume: "reachable s \<Longrightarrow> reachable (fst (subscribe_resume s cid e cb))"
| r_unsubscribe: "reachable s \<Longrightarrow> reachable (fst (unsubscribe s u ns e cbo opts))"
| r_publish: "reachable s \<Longrightarrow> reachable (fst (publish s u ns e d opts))"
| r_publish_resume: "reachable s \<Longrightarrow> reachable (fst (publish_resume s cid u ns e d))"
| r_disconnect: "reachable s \<Longrightarrow> reachable (disconnect s u ns)"
| r_deliver: "reachable s \<Longrightarrow> reachable (fst (deliver s cid name d))"
| r_advance: "reachable s \<Longrightarrow> reachable (advance s ms)"

section \<open>Scenarios\<close>

text \<open>A run of consecutive \<open>connect_error\<close> events on the socket of one record.\<close>

fun connect_errors :: "SocketManager \<Rightarrow> conn_id \<Rightarrow> data list \<Rightarrow> SocketManager" where
  "connect_errors s cid [] = s"
| "connect_errors s cid (e # es) =
     connect_errors (fst (deliver s cid ''connect_error'' e)) cid es"

definition only_attempts :: "nat \<Rightarrow> SocketOptions" where
  "only_attempts n = \<lparr>reconnectionAttempts = Some n, reconnectionDelay = None, timeout = None,
     autoConnect = None, headers = None, params = None\<rparr>"

definition only_timeout :: "nat \<Rightarrow> SocketOptions" where
  "only_timeout ms = \<lparr>reconnectionAttempts = None, reconnectionDelay = None, timeout = Some ms,
     autoConnect = None, headers = None, params = None\<rparr>"

definition ex_url :: string where
  "ex_url = ''http://localhost:3000''"

text \<open>One \<open>connect\<close> call is waiting for the handshake of record 0.\<close>

definition ex_pending :: SocketManager where
  "ex_pending = fst (connect init ex_url ''/'' None)"

text \<open>The handshake of record 0 has completed.\<close>

definition ex_connected :: SocketManager where
  "ex_connected = fst (deliver ex_pending 0 ''connect'' [])"

text \<open>Record 0 was connected and the transport then reported a disconnect.\<close>

definition ex_dropped :: SocketManager where
  "ex_dropped = fst (deliver ex_connected 0 ''disconnect'' ''transport close'')"

text \<open>Two subscribers of event \<open>x\<close> on record 0; the first one throws when called.\<close>

definition ex_throwing :: SocketManager where
  "ex_throwing =
     fst (subscribe (fst (subscribe ex_connected ex_url ''/'' ''x'' (Callback 1 True) None))
            ex_url ''/'' ''x'' (Callback 2 False) None)"


text \<open>
  Two different pairs with the same concatenation: record 0 was connected and
  subscribed to through the pair \<open>('http://h/a', '/b')\<close>.
\<close>

definition ex_shared :: SocketManager where
  "ex_shared =
     fst (subscribe (fst (deliver (fst (connect init ''http://h/a'' ''/b'' None)) 0 ''connect'' []))
            ''http://h/a'' ''/b'' ''x'' (Callback 1 False) None)"

text \<open>
  Two \<open>subscribe\<close> calls for event \<open>x\<close> on a key with no record, made one after the
  other before any handshake: each waits for a record of its own, 0 and 1.
\<close>

definition both_pending :: "callback \<Rightarrow> callback \<Rightarrow> SocketManager" where
  "both_pending cb cb2 =
     fst (subscribe (fst (subscribe init ex_url ''/'' ''x'' cb None)) ex_url ''/'' ''x'' cb2 None)"

text \<open>Then both handshakes complete and both calls are resumed.\<close>

definition both_resumed :: "callback \<Rightarrow> callback \<Rightarrow> SocketManager" where
  "both_resumed cb cb2 =
     fst (subscribe_resume
       (fst (subscribe_resume
         (fst (deliver (fst (deliver (both_pending cb cb2) 0 ''connect'' [])) 1 ''connect'' []))
         0 ''x'' cb))
       1 ''x'' cb2)"


section \<open>Evaluation rules\<close>

lemmas manager_defs =
  connect_def getConnectionKey_def newConnection_def setupConnectionHandlers_def io_def
  socket_on_def waitForConnection_def await_connection_def setTimeout_delay_def deliver_def
  registered_def run_handler_def settle_def clearTimeout_def num_or_def socket_disconnect_def
  socket_off_def defaultOptions_def Let_def

lemmas scenario_defs =
  init_def ex_url_def ex_pending_def ex_connected_def ex_dropped_def existingConnected_def
  spread_def orElse_def only_attempts_def only_timeout_def socket_of_def

section \<open>Reconnection limit and connect deadline\<close>

text \<open>
  C1. The code compares the attempt counter with the limit of \<open>defaultOptions\<close>, which
  is 3, whatever limit the call's options carry (the call's limit only reaches \<open>io\<close>):
  a record created by \<open>connect\<close> is still registered after one and after two
  consecutive connect errors, and it is closed and evicted by the third.
\<close>

theorem eviction_limit_is_default:
  assumes "existingConnected s (getConnectionKey u ns) = None"
  shows "connections (connect_errors (fst (connect s u ns opts)) (next_id s) [e1])
           (getConnectionKey u ns) = Some (next_id s)
    \<and> connections (connect_errors (fst (connect s u ns opts)) (next_id s) [e1, e2])
           (getConnectionKey u ns) = Some (next_id s)
    \<and> connections (connect_errors (fst (connect s u ns opts)) (next_id s) [e1, e2, e3])
           (getConnectionKey u ns) = None
    \<and> map_option closed
         (socket_of (connect_errors (fst (connect s u ns opts)) (next_id s) [e1, e2]) (next_id s))
         = Some False
    \<and> map_option closed
         (socket_of (connect_errors (fst (connect s u ns opts)) (next_id s) [e1, e2, e3]) (next_id s))
         = Some True
    \<and> map_option io_options (socket_of (fst (connect s u ns opts)) (next_id s))
         = Some (spread defaultOptions opts)"
  using assms by (simp add: manager_defs socket_of_def)

theorem eviction_limit_is_default_witness:
  "existingConnected init (getConnectionKey ex_url ''/'') = None
   \<and> map_option reconnectionAttempts (map_option io_options
        (socket_of (fst (connect init ex_url ''/'' (Some (only_attempts 1)))) 0)) = Some (Some 1)
   \<and> connections (connect_errors (fst (connect init ex_url ''/'' (Some (only_attempts 1)))) 0
        [''refused'']) (getConnectionKey ex_url ''/'') = Some 0
   \<and> map_option closed (socket_of (connect_errors
        (fst (connect init ex_url ''/'' (Some (only_attempts 1)))) 0 [''refused'', ''refused'']) 0)
        = Some False"
proof -
  have h: "existingConnected init (getConnectionKey ex_url ''/'') = None"
    by (simp add: scenario_defs)
  have n: "next_id init = 0"
    by (simp add: init_def)
  have o: "map_option reconnectionAttempts (map_option io_options
        (socket_of (fst (connect init ex_url ''/'' (Some (only_attempts 1)))) 0)) = Some (Some 1)"
    by (simp add: manager_defs scenario_defs)
  note t = eviction_limit_is_default
      [OF h, of "Some (only_attempts 1)" "''refused''" "''refused''" "''refused''", unfolded n]
  from h o t show ?thesis
    by blast
qed

subsection \<open>The clock\<close>

lemma fire_due_now: "now (fire_due s cids) = now s"
  by (induction cids arbitrary: s)
     (auto simp: timer_fired_def settle_def clearTimeout_def split: option.splits promise.splits)

lemma fire_due_other:
  "cid \<notin> set cids \<Longrightarrow> waits (fire_due s cids) cid = waits s cid"
  "cid \<notin> set cids \<Longrightarrow> timers (fire_due s cids) cid = timers s cid"
  "cid \<notin> set cids \<Longrightarrow> heap (fire_due s cids) cid = heap s cid"
  by (induction cids arbitrary: s;
      auto simp: timer_fired_def settle_def clearTimeout_def split: option.splits promise.splits)+

lemma fire_due_append: "fire_due s (xs @ ys) = fire_due (fire_due s xs) ys"
  by (induction xs arbitrary: s) auto

text \<open>
  C2. \<open>waitForConnection\<close> arms its timer with the timeout of \<open>defaultOptions\<close>, 5000 ms,
  whatever timeout the call's options carry: the call is still suspended at any time
  before 5000 ms, and it fails with the connection timeout when 5000 ms have passed
  with no event of the socket.
\<close>

theorem connect_deadline_is_default:
  assumes "existingConnected s (getConnectionKey u ns) = None"
  shows "timers (fst (connect s u ns opts)) (next_id s) = Some (now s + 5000)
    \<and> snd (connect s u ns opts) = Suspended (next_id s)
    \<and> (ms < 5000 \<longrightarrow>
         await_connection (advance (fst (connect s u ns opts)) ms) (next_id s)
           = Suspended (next_id s))
    \<and> await_connection (advance (fst (connect s u ns opts)) 5000) (next_id s)
         = Thrown (ConnectionTimeout (u @ ns))"
proof -
  define cid where "cid = next_id s"
  define s1 where "s1 = fst (connect s u ns opts)"
  have n1: "next_id s1 = Suc cid" and t1: "timers s1 cid = Some (now s + 5000)"
    and w1: "waits s1 cid = Some Pending" and now1: "now s1 = now s"
    and h1: "map_option url (heap s1 cid) = Some u" "map_option namespace (heap s1 cid) = Some ns"
    and r1: "snd (connect s u ns opts) = Suspended cid"
    using assms by (simp_all add: manager_defs s1_def cid_def)
  have adv: "advance s1 t = fire_due (fire_due (s1\<lparr>now := now s1 + t\<rparr>) [0..<cid]) [cid]" for t
    by (simp add: advance_def n1 fire_due_append)
  have pre: "waits (fire_due (s1\<lparr>now := now s1 + t\<rparr>) [0..<cid]) cid = Some Pending"
       "timers (fire_due (s1\<lparr>now := now s1 + t\<rparr>) [0..<cid]) cid = Some (now s + 5000)"
       "heap (fire_due (s1\<lparr>now := now s1 + t\<rparr>) [0..<cid]) cid = heap s1 cid"
       "now (fire_due (s1\<lparr>now := now s1 + t\<rparr>) [0..<cid]) = now s + t" for t
    by (simp_all add: fire_due_other fire_due_now w1 t1 now1)
  have early: "await_connection (advance s1 ms) cid = Suspended cid" if "ms < 5000"
    using that by (simp add: adv pre await_connection_def)
  obtain c where c: "heap s1 cid = Some c" "url c = u" "namespace c = ns"
    using h1 by (cases "heap s1 cid") auto
  have late: "await_connection (advance s1 5000) cid = Thrown (ConnectionTimeout (u @ ns))"
    by (simp add: adv pre await_connection_def timer_fired_def c settle_def clearTimeout_def)
  show ?thesis using t1 r1 early late by (simp add: s1_def cid_def)
qed

theorem connect_deadline_is_default_witness:
  "existingConnected init (getConnectionKey ex_url ''/'') = None
   \<and> map_option timeout (map_option io_options
        (socket_of (fst (connect init ex_url ''/'' (Some (only_timeout 10)))) 0)) = Some (Some 10)
   \<and> timers (fst (connect init ex_url ''/'' (Some (only_timeout 10)))) 0 = Some 5000
   \<and> await_connection (advance (fst (connect init ex_url ''/'' (Some (only_timeout 10)))) 10) 0
        = Suspended 0
   \<and> await_connection (advance (fst (connect init ex_url ''/'' (Some (only_timeout 10)))) 5000) 0
        = Thrown (ConnectionTimeout (ex_url @ ''/''))"
proof -
  have h: "existingConnected init (getConnectionKey ex_url ''/'') = None"
    by (simp add: scenario_defs)
  have n: "next_id init = 0" "now init = 0"
    by (simp_all add: init_def)
  have o: "map_option timeout (map_option io_options
        (socket_of (fst (connect init ex_url ''/'' (Some (only_timeout 10)))) 0)) = Some (Some 10)"
    by (simp add: manager_defs scenario_defs)
  have l: "(10::nat) < 5000"
    by simp
  note t = connect_deadline_is_default [OF h, of "Some (only_timeout 10)" 10, unfolded n]
  from h o l t show ?thesis
    by simp
qed

section \<open>Get or create\<close>

text \<open>
  C3, as the code has it. \<open>getOrCreateConnection\<close> returns the registered record only
  when its \<open>connected\<close> flag is true. For a registered record whose flag is false
  it allocates a new record with a new socket for the same address, with attempt counter 0,
  and registers it under the key in place of the old one; the old record is left as it was.
\<close>

theorem getOrCreate_reuses_only_connected:
  assumes "connections s (getConnectionKey u ns) = Some cid" and "heap s cid = Some c"
    and "cid < next_id s"
  shows "(connected c \<longrightarrow> getOrCreateConnection s u ns opts = (s, Returned cid))
    \<and> (\<not> connected c \<longrightarrow>
          snd (getOrCreateConnection s u ns opts) = Suspended (next_id s)
        \<and> connections (fst (getOrCreateConnection s u ns opts)) (getConnectionKey u ns)
            = Some (next_id s)
        \<and> next_id s \<noteq> cid
        \<and> heap (fst (getOrCreateConnection s u ns opts)) cid = Some c
        \<and> map_option reconnectAttempts
            (heap (fst (getOrCreateConnection s u ns opts)) (next_id s)) = Some 0
        \<and> map_option connected
            (heap (fst (getOrCreateConnection s u ns opts)) (next_id s)) = Some False
        \<and> map_option uri
            (socket_of (fst (getOrCreateConnection s u ns opts)) (next_id s)) = Some (u @ ns))"
  using assms
  by (simp add: getOrCreateConnection_def existingConnected_def manager_defs socket_of_def)

lemma ex_pending_record:
  "\<exists>c. connections ex_pending (getConnectionKey ex_url ''/'') = Some 0
       \<and> heap ex_pending 0 = Some c \<and> \<not> connected c \<and> next_id ex_pending = 1"
  by (simp add: manager_defs scenario_defs)

lemma ex_connected_record:
  "\<exists>c. connections ex_connected (getConnectionKey ex_url ''/'') = Some 0
       \<and> heap ex_connected 0 = Some c \<and> connected c \<and> next_id ex_connected = 1
       \<and> listeners c = Map.empty \<and> waits ex_connected 0 = Some Resolved
       \<and> emitted (socket c) = []"
  by (simp add: manager_defs scenario_defs)

theorem getOrCreate_reuses_only_connected_witness:
  "getOrCreateConnection ex_connected ex_url ''/'' None = (ex_connected, Returned 0)
   \<and> snd (getOrCreateConnection ex_pending ex_url ''/'' None) = Suspended 1
   \<and> connections (fst (getOrCreateConnection ex_pending ex_url ''/'' None))
        (getConnectionKey ex_url ''/'') = Some 1
   \<and> map_option connected (heap (fst (getOrCreateConnection ex_pending ex_url ''/'' None)) 0)
        = Some False"
proof -
  obtain c where c: "connections ex_connected (getConnectionKey ex_url ''/'') = Some 0"
      "heap ex_connected 0 = Some c" "connected c" "next_id ex_connected = 1"
    using ex_connected_record by blast
  obtain p where p: "connections ex_pending (getConnectionKey ex_url ''/'') = Some 0"
      "heap ex_pending 0 = Some p" "\<not> connected p" "next_id ex_pending = 1"
    using ex_pending_record by blast
  have "(0::nat) < 1"
    by simp
  then show ?thesis
    using getOrCreate_reuses_only_connected [OF c(1) c(2), of None]
      getOrCreate_reuses_only_connected [OF p(1) p(2), of None] c p
    by simp
qed

theorem getOrCreate_second_record_counterexample:
  "connections ex_pending (getConnectionKey ex_url ''/'') = Some 0
   \<and> map_option connected (heap ex_pending 0) = Some False
   \<and> snd (getOrCreateConnection ex_pending ex_url ''/'' None) \<noteq> Returned 0
   \<and> connections (fst (getOrCreateConnection ex_pending ex_url ''/'' None))
        (getConnectionKey ex_url ''/'') = Some 1
   \<and> map_option uri (socket_of (fst (getOrCreateConnection ex_pending ex_url ''/'' None)) 0)
        = Some (ex_url @ ''/'')
   \<and> map_option uri (socket_of (fst (getOrCreateConnection ex_pending ex_url ''/'' None)) 1)
        = Some (ex_url @ ''/'')"
  by (simp add: getOrCreateConnection_def manager_defs scenario_defs)

section \<open>Missing connections and colliding keys\<close>



text \<open>
  C9. The key of a pair is the concatenation of its two strings. Two pairs with the same
  concatenation have the same key, hence the same pool entry: a record created through
  one is found through the other, \<open>unsubscribe\<close> and \<open>disconnect\<close> through one act on
  the record of the other, and on a connected record \<open>connect\<close>, \<open>subscribe\<close> and
  \<open>publish\<close> through either pair are the same operation.
\<close>

theorem colliding_keys_share_record:
  assumes "u1 @ n1 = u2 @ n2"
  shows "getConnectionKey u1 n1 = getConnectionKey u2 n2
    \<and> connections (fst (connect s u1 n1 o1)) (getConnectionKey u2 n2)
        = connections (fst (connect s u1 n1 o1)) (getConnectionKey u1 n1)
    \<and> unsubscribe s u2 n2 e cbo o2 = unsubscribe s u1 n1 e cbo o1
    \<and> disconnect s u2 n2 = disconnect s u1 n1
    \<and> (existingConnected s (getConnectionKey u1 n1) = Some cid \<longrightarrow>
          connect s u2 n2 o2 = (s, Returned cid)
        \<and> getOrCreateConnection s u2 n2 o2 = (s, Returned cid)
        \<and> subscribe s u2 n2 e cb o2 = subscribe s u1 n1 e cb o1
        \<and> publish s u2 n2 e d o2 = publish s u1 n1 e d o1)"
  using assms
  by (auto simp: getConnectionKey_def unsubscribe_def disconnect_def connect_def
      getOrCreateConnection_def subscribe_def publish_def publish_body_def split: option.splits)

lemma ex_shared_eval:
  "callbacks_of ex_shared 0 ''x'' = [Callback 1 False]"
  "callbacks_of (fst (unsubscribe ex_shared ''http://h/a'' ''/b'' ''x'' None None)) 0 ''x'' = []"
  "connections ex_shared (getConnectionKey ''http://h/a'' ''/b'') = Some 0"
  "connections (disconnect ex_shared ''http://h/a'' ''/b'') (getConnectionKey ''http://h/a'' ''/b'')
     = None"
  by (simp_all add: ex_shared_def manager_defs scenario_defs subscribe_def
      getOrCreateConnection_def subscribe_body_def on_record_def addListener_def set_add_def
      callbacks_of_def callbacks_def unsubscribe_def removeListener_def disconnect_def
      socket_disconnect_call_def)

theorem colliding_keys_share_record_witness:
  "(''http://h/a'', ''/b'') \<noteq> (''http://h'', ''/a/b'')
   \<and> ''http://h/a'' @ ''/b'' = ''http://h'' @ ''/a/b''
   \<and> getConnectionKey ''http://h/a'' ''/b'' = getConnectionKey ''http://h'' ''/a/b''
   \<and> callbacks_of ex_shared 0 ''x'' = [Callback 1 False]
   \<and> callbacks_of (fst (unsubscribe ex_shared ''http://h'' ''/a/b'' ''x'' None None)) 0 ''x'' = []
   \<and> connections ex_shared (getConnectionKey ''http://h/a'' ''/b'') = Some 0
   \<and> connections (disconnect ex_shared ''http://h'' ''/a/b'')
        (getConnectionKey ''http://h/a'' ''/b'') = None"
proof -
  have h: "''http://h/a'' @ ''/b'' = ''http://h'' @ ''/a/b''"
    by simp
  note t = colliding_keys_share_record [OF h, of ex_shared None "''x''" None None]
  have k: "getConnectionKey ''http://h/a'' ''/b'' = getConnectionKey ''http://h'' ''/a/b''"
    and u: "unsubscribe ex_shared ''http://h'' ''/a/b'' ''x'' None None
            = unsubscribe ex_shared ''http://h/a'' ''/b'' ''x'' None None"
    and d: "disconnect ex_shared ''http://h'' ''/a/b'' = disconnect ex_shared ''http://h/a'' ''/b''"
    using t by blast+
  show ?thesis
    unfolding u d using h k ex_shared_eval by simp
qed

section \<open>Publish\<close>




section \<open>Fan-out\<close>

lemma forEach_until_throw:
  "\<forall>x\<in>set pre. \<not> cb_throws x \<Longrightarrow> cb_throws t \<Longrightarrow>
     forEach (pre @ t # post) d tr = (tr @ map (\<lambda>x. (x, d)) (pre @ [t]), True)"
  by (induction pre arbitrary: tr) auto

lemma ex_throwing_record:
  "\<exists>c. heap ex_throwing 0 = Some c \<and> registered (socket c) ''x'' = [FanOut ''x'']
      \<and> listeners c ''x'' = Some ([] @ Callback 1 True # [Callback 2 False])
      \<and> invoked ex_throwing = []"
  by (simp add: ex_throwing_def manager_defs scenario_defs subscribe_def
      getOrCreateConnection_def subscribe_body_def on_record_def addListener_def set_add_def)

text \<open>
  C6, as the code has it. The fan-out listener calls the callbacks of the event in
  insertion order with nothing around the call, so the first callback that throws ends
  the delivery of that message: the callbacks inserted before it and the throwing one
  have been called, the callbacks inserted after it are not called, and the exception
  leaves the listener. Nothing else of the manager changes: the record stays in the
  pool with its flag, its registry and its socket.
\<close>

theorem fanout_stops_at_first_throw:
  assumes "heap s cid = Some c" and "registered (socket c) e = [FanOut e]"
    and "listeners c e = Some (pre @ t # post)"
    and "\<forall>x\<in>set pre. \<not> cb_throws x" and "cb_throws t"
  shows "deliver s cid e d = (s\<lparr>invoked := invoked s @ map (\<lambda>x. (x, d)) (pre @ [t])\<rparr>, True)"
  using assms by (simp add: deliver_def run_handler_def forEach_until_throw)

theorem fanout_stops_at_first_throw_witness:
  "callbacks_of ex_throwing 0 ''x'' = [Callback 1 True, Callback 2 False]
   \<and> invoked (fst (deliver ex_throwing 0 ''x'' ''m'')) = [(Callback 1 True, ''m'')]
   \<and> connections (fst (deliver ex_throwing 0 ''x'' ''m'')) = connections ex_throwing
   \<and> heap (fst (deliver ex_throwing 0 ''x'' ''m'')) = heap ex_throwing"
proof -
  obtain c where c: "heap ex_throwing 0 = Some c" "registered (socket c) ''x'' = [FanOut ''x'']"
      "listeners c ''x'' = Some ([] @ Callback 1 True # [Callback 2 False])"
      "invoked ex_throwing = []"
    using ex_throwing_record by blast
  have t: "cb_throws (Callback 1 True)" "\<forall>x\<in>set []. \<not> cb_throws x"
    by simp_all
  show ?thesis
    using fanout_stops_at_first_throw [OF c(1) c(2) c(3) t(2) t(1), of "''m''"] c
    by (simp add: callbacks_of_def callbacks_def)
qed

theorem throwing_callback_blocks_later_counterexample:
  "callbacks_of ex_throwing 0 ''x'' = [Callback 1 True, Callback 2 False]
   \<and> (Callback 2 False, ''m'') \<notin> set (invoked (fst (deliver ex_throwing 0 ''x'' ''m'')))
   \<and> snd (deliver ex_throwing 0 ''x'' ''m'')"
  by (simp add: ex_throwing_def manager_defs scenario_defs subscribe_def
      getOrCreateConnection_def subscribe_body_def on_record_def addListener_def set_add_def
      callbacks_of_def callbacks_def)

section \<open>The subscription registry\<close>

lemma listeners_addListener:
  "listeners (addListener c e cb) = (listeners c)(e \<mapsto> set_add (callbacks c e) cb)"
  by (auto simp: addListener_def callbacks_def Let_def split: option.splits)

lemma callbacks_addListener:
  "callbacks (addListener c e cb) e' = (if e' = e then set_add (callbacks c e) cb else callbacks c e')"
  by (simp add: callbacks_def listeners_addListener)

lemma socket_addListener:
  "socket (addListener c e cb) =
     (if listeners c e = None then socket_on (socket c) e (FanOut e) else socket c)"
  by (auto simp: addListener_def Let_def split: option.splits)

lemma connected_addListener: "connected (addListener c e cb) = connected c"
  by (auto simp: addListener_def Let_def split: option.splits)

lemma wire_listeners_addListener:
  "wire_listeners (addListener c e cb) e' =
     (if e' = e \<and> listeners c e = None then wire_listeners c e' @ [FanOut e]
      else wire_listeners c e')"
  by (simp add: wire_listeners_def registered_def socket_addListener socket_on_def is_fanout_def)

lemma set_add_nonempty: "set_add cbs cb \<noteq> []"
  by (auto simp: set_add_def)

lemma distinct_set_add: "distinct cbs \<Longrightarrow> distinct (set_add cbs cb)"
  by (simp add: set_add_def)

lemma registry_inv_addListener:
  assumes "registry_inv c"
  shows "registry_inv (addListener c e cb)"
  unfolding registry_inv_def
proof (intro allI conjI)
  fix e'
  from assms have w: "wire_listeners c e' = (if callbacks c e' = [] then [] else [FanOut e'])"
    and n: "listeners c e' \<noteq> Some []" and d: "distinct (callbacks c e')"
    by (simp_all add: registry_inv_def)
  show "wire_listeners (addListener c e cb) e'
      = (if callbacks (addListener c e cb) e' = [] then [] else [FanOut e'])"
  proof (cases "e' = e")
    case True
    have "(callbacks c e' = []) = (listeners c e' = None)"
      using n by (auto simp: callbacks_def split: option.splits)
    then show ?thesis
      using w True
      by (simp add: wire_listeners_addListener callbacks_addListener set_add_nonempty)
  next
    case False
    then show ?thesis
      using w by (simp add: wire_listeners_addListener callbacks_addListener)
  qed
  show "listeners (addListener c e cb) e' \<noteq> Some []"
    using n by (simp add: listeners_addListener set_add_nonempty)
  show "distinct (callbacks (addListener c e cb) e')"
    using d by (auto simp: callbacks_addListener distinct_set_add)
qed

lemma addListener_idem: "addListener (addListener c e cb) e cb = addListener c e cb"
proof -
  have "listeners (addListener c e cb) e = Some (set_add (callbacks c e) cb)"
    by (simp add: listeners_addListener)
  moreover have "set_add (set_add (callbacks c e) cb) cb = set_add (callbacks c e) cb"
    by (simp add: set_add_def)
  ultimately show ?thesis
    by (simp add: addListener_def [of "addListener c e cb"] map_upd_triv)
qed

lemma registered_off:
  "registered (socket_off sk e) e' = (if e' = e then [] else registered sk e')"
proof -
  have "map snd (filter (\<lambda>(n, h). n = e') (filter (\<lambda>(n, h). n \<noteq> e) hs))
      = (if e' = e then [] else map snd (filter (\<lambda>(n, h). n = e') hs))" for hs :: "(string \<times> handler) list"
    by (induction hs) auto
  then show ?thesis
    by (simp add: registered_def socket_off_def)
qed

lemma wire_listeners_off:
  "wire_listeners (c\<lparr>listeners := l, socket := socket_off (socket c) e\<rparr>) e' =
     (if e' = e then [] else wire_listeners c e')"
  by (simp add: wire_listeners_def registered_off)

lemma wire_listeners_listeners_update [simp]:
  "wire_listeners (c\<lparr>listeners := l\<rparr>) e' = wire_listeners c e'"
  by (simp add: wire_listeners_def)

lemma registry_inv_removeListener:
  assumes "registry_inv c"
  shows "registry_inv (removeListener c e cbo)"
  unfolding registry_inv_def
proof (intro allI)
  fix e'
  from assms have w: "wire_listeners c e' = (if callbacks c e' = [] then [] else [FanOut e'])"
    and n: "listeners c e' \<noteq> Some []" and d: "distinct (callbacks c e')"
    by (simp_all add: registry_inv_def)
  show "wire_listeners (removeListener c e cbo) e'
      = (if callbacks (removeListener c e cbo) e' = [] then [] else [FanOut e'])
    \<and> listeners (removeListener c e cbo) e' \<noteq> Some []
    \<and> distinct (callbacks (removeListener c e cbo) e')"
    using w n d
    by (auto simp: removeListener_def wire_listeners_off callbacks_def set_delete_def Let_def
        distinct_removeAll split: option.splits)
qed

subsection \<open>The invariant over the store\<close>

lemma manager_inv_on_record:
  assumes "manager_inv s" and "\<And>c. registry_inv c \<Longrightarrow> registry_inv (f c)"
  shows "manager_inv (on_record s cid f)"
  using assms by (auto simp: manager_inv_def on_record_def split: option.splits)

lemma registry_inv_new:
  "registry_inv (c\<lparr>socket := socket_on (socket_on (socket
      (setupConnectionHandlers (newConnection u ns opts))) ''connect'' OnceConnect)
        ''connect_error'' OnceConnectError\<rparr>)" if "c = setupConnectionHandlers (newConnection u ns opts)"
  using that
  by (simp add: registry_inv_def wire_listeners_def registered_def callbacks_def
      setupConnectionHandlers_def newConnection_def io_def socket_on_def is_fanout_def)

lemma manager_inv_connect:
  assumes "manager_inv s"
  shows "manager_inv (fst (connect s u ns opts))"
proof (cases "existingConnected s (getConnectionKey u ns)")
  case (Some cid)
  then show ?thesis using assms by (simp add: connect_def)
next
  case None
  have "connected (setupConnectionHandlers (newConnection u ns opts)) = False"
    by (simp add: setupConnectionHandlers_def newConnection_def)
  then show ?thesis
    using None assms registry_inv_new [OF refl, of u ns opts]
    by (auto simp: connect_def Let_def waitForConnection_def manager_inv_def)
qed

lemma manager_inv_getOrCreate:
  "manager_inv s \<Longrightarrow> manager_inv (fst (getOrCreateConnection s u ns opts))"
  by (auto simp: getOrCreateConnection_def manager_inv_connect split: option.splits)

lemma manager_inv_subscribe_body:
  "manager_inv s \<Longrightarrow> manager_inv (subscribe_body s cid e cb)"
  by (simp add: subscribe_body_def manager_inv_on_record registry_inv_addListener)

lemma manager_inv_subscribe:
  assumes "manager_inv s"
  shows "manager_inv (fst (subscribe s u ns e cb opts))"
proof -
  obtain s1 r where g: "getOrCreateConnection s u ns opts = (s1, r)"
    by (cases "getOrCreateConnection s u ns opts")
  then have "manager_inv s1"
    using manager_inv_getOrCreate [OF assms, of u ns opts] by simp
  then show ?thesis
    by (cases r) (simp_all add: subscribe_def g manager_inv_subscribe_body)
qed

lemma manager_inv_subscribe_resume:
  "manager_inv s \<Longrightarrow> manager_inv (fst (subscribe_resume s cid e cb))"
  by (cases "await_connection s cid") (simp_all add: subscribe_resume_def manager_inv_subscribe_body)

lemma manager_inv_unsubscribe:
  "manager_inv s \<Longrightarrow> manager_inv (fst (unsubscribe s u ns e cbo opts))"
  by (auto simp: unsubscribe_def manager_inv_on_record registry_inv_removeListener
      split: option.splits)

lemma registry_inv_iff:
  "registry_inv c \<Longrightarrow> (wire_listeners c e \<noteq> []) = (callbacks c e \<noteq> [])"
  by (simp add: registry_inv_def)

subsection \<open>Delivery of a message\<close>



subsection \<open>Subscribing on a connected record\<close>

lemma subscribe_connected:
  assumes "connections s (getConnectionKey u ns) = Some cid" and "heap s cid = Some c"
    and "connected c"
  shows "subscribe s u ns e cb opts
           = (s\<lparr>heap := (heap s)(cid \<mapsto> addListener c e cb)\<rparr>, Returned ())"
  using assms
  by (simp add: subscribe_def getOrCreateConnection_def existingConnected_def subscribe_body_def
      on_record_def)

lemma count_list_distinct: "distinct xs \<Longrightarrow> x \<in> set xs \<Longrightarrow> count_list xs x = 1"
  by (induction xs) auto

lemma set_set_add: "set (set_add cbs cb) = insert cb (set cbs)"
  by (auto simp: set_add_def)

lemma observe_update:
  "wire_of (s\<lparr>heap := (heap s)(cid \<mapsto> c)\<rparr>) cid e = wire_listeners c e"
  "callbacks_of (s\<lparr>heap := (heap s)(cid \<mapsto> c)\<rparr>) cid e = callbacks c e"
  "entry_of (s\<lparr>heap := (heap s)(cid \<mapsto> c)\<rparr>) cid e = listeners c e"
  "socket_of (s\<lparr>heap := (heap s)(cid \<mapsto> c)\<rparr>) cid = Some (socket c)"
  by (simp_all add: wire_of_def callbacks_of_def entry_of_def socket_of_def)

lemma wire_after_addListener:
  "registry_inv c \<Longrightarrow> wire_listeners (addListener c e cb) e = [FanOut e]"
  using registry_inv_addListener [of c e cb]
  by (simp add: registry_inv_def callbacks_addListener set_add_nonempty)

lemma ex_shared_inv: "manager_inv ex_shared"
  unfolding ex_shared_def
  by (rule manager_inv_subscribe)
     (simp add: manager_inv_def registry_inv_def wire_listeners_def callbacks_def is_fanout_def
        manager_defs scenario_defs)

lemma ex_shared_registry:
  "callbacks_of ex_shared 0 ''x'' = [Callback 1 False]"
  "wire_of ex_shared 0 ''x'' = [FanOut ''x'']"
  "connections ex_shared (getConnectionKey ''http://h/a'' ''/b'') = Some 0"
  by (simp_all add: ex_shared_def manager_defs scenario_defs subscribe_def
      getOrCreateConnection_def subscribe_body_def on_record_def addListener_def set_add_def
      callbacks_of_def callbacks_def wire_of_def wire_listeners_def is_fanout_def)

subsection \<open>The invariant under subscribe and unsubscribe\<close>

text \<open>
  C5. The registry invariant (\<open>registry_inv\<close>: an event has a wire-level listener
  exactly when its callback set is not empty, and then exactly one) holds for every
  record after \<open>subscribe\<close>, after a resumed \<open>subscribe\<close> and after \<open>unsubscribe\<close>
  whenever it held before. \<open>unsubscribe\<close> with a callback whose removal leaves the
  set empty removes the map entry and the wire-level listener, and \<open>unsubscribe\<close>
  without a callback removes the entry and the wire-level listener.
\<close>

theorem registry_invariant_preserved:
  assumes "manager_inv s"
  shows "manager_inv (fst (subscribe s u ns e cb opts))
    \<and> manager_inv (fst (subscribe_resume s cid e cb))
    \<and> manager_inv (fst (unsubscribe s u ns e cbo opts))
    \<and> (connections s (getConnectionKey u ns) = Some cid \<and> set (callbacks_of s cid e) \<subseteq> {cb} \<longrightarrow>
          entry_of (fst (unsubscribe s u ns e (Some cb) opts)) cid e = None
        \<and> wire_of (fst (unsubscribe s u ns e (Some cb) opts)) cid e = [])
    \<and> (connections s (getConnectionKey u ns) = Some cid \<longrightarrow>
          entry_of (fst (unsubscribe s u ns e None opts)) cid e = None
        \<and> wire_of (fst (unsubscribe s u ns e None opts)) cid e = [])"
proof -
  have a: "entry_of (fst (unsubscribe s u ns e (Some cb) opts)) cid e = None
        \<and> wire_of (fst (unsubscribe s u ns e (Some cb) opts)) cid e = []"
    if k: "connections s (getConnectionKey u ns) = Some cid"
      and o: "set (callbacks_of s cid e) \<subseteq> {cb}"
  proof (cases "heap s cid")
    case None
    then show ?thesis
      by (simp add: unsubscribe_def k on_record_def entry_of_def wire_of_def)
  next
    case (Some c)
    with assms have i: "registry_inv c"
      by (simp add: manager_inv_def)
    have o': "set (callbacks c e) \<subseteq> {cb}"
      using o Some by (simp add: callbacks_of_def)
    show ?thesis
    proof (cases "listeners c e")
      case None
      with i have "wire_listeners c e = []"
        by (simp add: registry_inv_def callbacks_def)
      with None Some show ?thesis
        by (simp add: unsubscribe_def k on_record_def removeListener_def observe_update)
    next
      case (Some cbs)
      with o' have "removeAll cb cbs = []"
        by (auto simp: callbacks_def removeAll_filter_not_eq filter_empty_conv)
      with Some \<open>heap s cid = Some c\<close> show ?thesis
        by (simp add: unsubscribe_def k on_record_def removeListener_def observe_update
            set_delete_def wire_listeners_off)
    qed
  qed
  have b: "entry_of (fst (unsubscribe s u ns e None opts)) cid e = None
        \<and> wire_of (fst (unsubscribe s u ns e None opts)) cid e = []"
    if k: "connections s (getConnectionKey u ns) = Some cid"
  proof (cases "heap s cid")
    case None
    then show ?thesis
      by (simp add: unsubscribe_def k on_record_def entry_of_def wire_of_def)
  next
    case (Some c)
    with assms have i: "registry_inv c"
      by (simp add: manager_inv_def)
    then have "listeners c e = None \<Longrightarrow> wire_listeners c e = []"
      by (simp add: registry_inv_def callbacks_def)
    with Some show ?thesis
      by (auto simp: unsubscribe_def k on_record_def removeListener_def observe_update
          wire_listeners_off)
  qed
  show ?thesis
    using assms a b
    by (simp add: manager_inv_subscribe manager_inv_subscribe_resume manager_inv_unsubscribe)
qed

theorem registry_invariant_preserved_witness:
  "manager_inv ex_shared
   \<and> manager_inv (fst (subscribe ex_shared ''http://h/a'' ''/b'' ''y'' (Callback 2 False) None))
   \<and> manager_inv (fst (unsubscribe ex_shared ''http://h/a'' ''/b'' ''x'' (Some (Callback 1 False)) None))
   \<and> callbacks_of ex_shared 0 ''x'' = [Callback 1 False]
   \<and> wire_of ex_shared 0 ''x'' = [FanOut ''x'']
   \<and> entry_of (fst (unsubscribe ex_shared ''http://h/a'' ''/b'' ''x'' (Some (Callback 1 False)) None)) 0 ''x'' = None
   \<and> wire_of (fst (unsubscribe ex_shared ''http://h/a'' ''/b'' ''x'' (Some (Callback 1 False)) None)) 0 ''x'' = []
   \<and> entry_of (fst (unsubscribe ex_shared ''http://h/a'' ''/b'' ''x'' None None)) 0 ''x'' = None
   \<and> wire_of (fst (unsubscribe ex_shared ''http://h/a'' ''/b'' ''x'' None None)) 0 ''x'' = []"
proof -
  note t1 = registry_invariant_preserved [OF ex_shared_inv, of "''http://h/a''" "''/b''" "''y''" "Callback 2 False" None 0
      "Some (Callback 1 False)"]
  note t2 = registry_invariant_preserved [OF ex_shared_inv, of "''http://h/a''" "''/b''" "''x''" "Callback 1 False" None 0
      "Some (Callback 1 False)"]
  from t1 have a: "manager_inv (fst (subscribe ex_shared ''http://h/a'' ''/b'' ''y'' (Callback 2 False) None))"
    by blast
  from t2 ex_shared_registry ex_shared_inv a show ?thesis
    by simp
qed

section \<open>The invariant holds in every reachable state\<close>

lemma manager_ok_init: "manager_ok init"
  by (simp add: manager_ok_def init_def)

lemma registry_inv_empty:
  "handlers (socket c) = pending_handlers \<Longrightarrow> listeners c = Map.empty \<Longrightarrow> registry_inv c"
  by (simp add: registry_inv_def wire_listeners_def registered_def callbacks_def is_fanout_def
      pending_handlers_def)

lemma connect_cases:
  "(\<exists>cid. existingConnected s (getConnectionKey u ns) = Some cid \<and> connect s u ns opts = (s, Returned cid))
   \<or> (existingConnected s (getConnectionKey u ns) = None
      \<and> connect s u ns opts =
          (s\<lparr>heap := (heap s)(next_id s \<mapsto>
                 (newConnection u ns opts)\<lparr>socket := (io (u @ ns) (spread defaultOptions opts))
                    \<lparr>handlers := pending_handlers\<rparr>\<rparr>),
              next_id := Suc (next_id s),
              connections := (connections s)(getConnectionKey u ns \<mapsto> next_id s),
              waits := (waits s)(next_id s \<mapsto> Pending),
              timers := (timers s)(next_id s \<mapsto> now s + 5000)\<rparr>, Suspended (next_id s)))"
  by (cases "existingConnected s (getConnectionKey u ns)")
     (simp_all add: manager_defs pending_handlers_def)

lemma manager_okI: "(\<And>cid c. heap s cid = Some c \<Longrightarrow> record_ok s cid c) \<Longrightarrow> manager_ok s"
  by (simp add: manager_ok_def)

lemma manager_okD: "manager_ok s \<Longrightarrow> heap s cid = Some c \<Longrightarrow> record_ok s cid c"
  by (simp add: manager_ok_def)

text \<open>An operation that touches the record, the promise and the timer of one address only.\<close>

lemma manager_ok_frame:
  assumes "manager_ok s"
    and "\<And>k. k \<noteq> cid \<Longrightarrow> heap s' k = heap s k \<and> timers s' k = timers s k \<and> waits s' k = waits s k"
    and "\<And>c. heap s' cid = Some c \<Longrightarrow> record_ok s' cid c"
  shows "manager_ok s'"
proof (rule manager_okI)
  fix k c
  assume h: "heap s' k = Some c"
  show "record_ok s' k c"
  proof (cases "k = cid")
    case True
    with h assms(3) show ?thesis by simp
  next
    case False
    with h assms(2) [of k] manager_okD [OF assms(1), of k c] show ?thesis
      by (simp add: record_ok_def)
  qed
qed

lemma manager_ok_connect:
  assumes "manager_ok s"
  shows "manager_ok (fst (connect s u ns opts))"
  using connect_cases [of s u ns opts]
proof (elim disjE exE conjE)
  fix cid
  assume "connect s u ns opts = (s, Returned cid)"
  with assms show ?thesis by simp
next
  assume c: "connect s u ns opts =
          (s\<lparr>heap := (heap s)(next_id s \<mapsto>
                 (newConnection u ns opts)\<lparr>socket := (io (u @ ns) (spread defaultOptions opts))
                    \<lparr>handlers := pending_handlers\<rparr>\<rparr>),
              next_id := Suc (next_id s),
              connections := (connections s)(getConnectionKey u ns \<mapsto> next_id s),
              waits := (waits s)(next_id s \<mapsto> Pending),
              timers := (timers s)(next_id s \<mapsto> now s + 5000)\<rparr>, Suspended (next_id s))"
  show ?thesis
    unfolding c fst_conv
    by (rule manager_ok_frame [OF assms, of "next_id s"])
       (auto simp: record_ok_def registry_inv_empty newConnection_def)
qed

lemma connect_returned:
  "connect s u ns opts = (s1, Returned cid) \<Longrightarrow>
     s1 = s \<and> existingConnected s (getConnectionKey u ns) = Some cid"
  using connect_cases [of s u ns opts] by auto

lemma getOrCreate_returned:
  "getOrCreateConnection s u ns opts = (s1, Returned cid) \<Longrightarrow>
     s1 = s \<and> existingConnected s (getConnectionKey u ns) = Some cid"
  by (auto simp: getOrCreateConnection_def dest: connect_returned split: option.splits)

lemma getOrCreate_ok: "manager_ok s \<Longrightarrow> manager_ok (fst (getOrCreateConnection s u ns opts))"
  by (auto simp: getOrCreateConnection_def manager_ok_connect split: option.splits)

lemma record_ok_connected: "record_ok s cid c \<Longrightarrow> connected c \<Longrightarrow> timers s cid = None"
  by (cases "timers s cid") (auto simp: record_ok_def)

lemma record_ok_resolved:
  "record_ok s cid c \<Longrightarrow> waits s cid = Some Resolved \<Longrightarrow> timers s cid = None"
  by (cases "timers s cid") (auto simp: record_ok_def)

lemma existingConnected_timer:
  assumes "manager_ok s" and "existingConnected s key = Some cid"
  shows "timers s cid = None"
proof -
  from assms(2) obtain c where "heap s cid = Some c" "connected c"
    by (auto simp: existingConnected_def split: option.splits if_splits)
  with manager_okD [OF assms(1)] show ?thesis
    by (blast intro: record_ok_connected)
qed

lemma manager_ok_on_record:
  assumes "manager_ok s"
    and "\<And>c. heap s cid = Some c \<Longrightarrow> record_ok s cid c \<Longrightarrow> record_ok s cid (f c)"
  shows "manager_ok (on_record s cid f)"
proof (cases "heap s cid")
  case None
  with assms(1) show ?thesis by (simp add: on_record_def)
next
  case (Some c)
  have "record_ok s cid (f c)"
    using assms(2) [OF Some] manager_okD [OF assms(1) Some] by simp
  then show ?thesis
    unfolding on_record_def Some option.case
    by (intro manager_ok_frame [OF assms(1), of cid]) (simp_all add: record_ok_def)
qed

lemma manager_ok_subscribe_body:
  assumes "manager_ok s" and "timers s cid = None"
  shows "manager_ok (subscribe_body s cid e cb)"
  unfolding subscribe_body_def
  using assms(2)
  by (intro manager_ok_on_record [OF assms(1)]) (simp add: record_ok_def registry_inv_addListener)

lemma manager_ok_subscribe:
  assumes "manager_ok s"
  shows "manager_ok (fst (subscribe s u ns e cb opts))"
proof -
  obtain s1 r where g: "getOrCreateConnection s u ns opts = (s1, r)"
    by (cases "getOrCreateConnection s u ns opts")
  have ok1: "manager_ok s1"
    using getOrCreate_ok [OF assms, of u ns opts] g by simp
  show ?thesis
  proof (cases r)
    case (Returned cid)
    with g have "s1 = s" "existingConnected s (getConnectionKey u ns) = Some cid"
      using getOrCreate_returned by blast+
    with existingConnected_timer [OF assms] have "timers s1 cid = None"
      by simp
    with ok1 show ?thesis
      by (simp add: subscribe_def g Returned manager_ok_subscribe_body)
  qed (simp_all add: subscribe_def g ok1)
qed

lemma await_returned:
  "await_connection s cid = Returned k \<Longrightarrow> k = cid \<and> waits s cid = Some Resolved"
  by (auto simp: await_connection_def split: option.splits promise.splits)

lemma resolved_timer:
  assumes "manager_ok s" and "waits s cid = Some Resolved"
  shows "heap s cid = None \<or> timers s cid = None"
proof (cases "heap s cid")
  case (Some c)
  with manager_okD [OF assms(1) Some] assms(2) show ?thesis
    by (simp add: record_ok_resolved)
qed simp

lemma subscribe_body_absent: "heap s cid = None \<Longrightarrow> subscribe_body s cid e cb = s"
  by (simp add: subscribe_body_def on_record_def)

lemma manager_ok_subscribe_resume:
  assumes "manager_ok s"
  shows "manager_ok (fst (subscribe_resume s cid e cb))"
proof (cases "await_connection s cid")
  case (Returned k)
  then have k: "k = cid" "waits s cid = Some Resolved"
    using await_returned by blast+
  with resolved_timer [OF assms, of cid] show ?thesis
    using assms
    by (auto simp: subscribe_resume_def Returned manager_ok_subscribe_body subscribe_body_absent)
qed (simp_all add: subscribe_resume_def assms)

lemma removeListener_empty: "listeners c = Map.empty \<Longrightarrow> removeListener c e cbo = c"
  by (simp add: removeListener_def split: option.splits)

lemma manager_ok_unsubscribe:
  assumes "manager_ok s"
  shows "manager_ok (fst (unsubscribe s u ns e cbo opts))"
proof (cases "connections s (getConnectionKey u ns)")
  case None
  with assms show ?thesis by (simp add: unsubscribe_def)
next
  case (Some cid)
  have "manager_ok (on_record s cid (\<lambda>c. removeListener c e cbo))"
  proof (rule manager_ok_on_record [OF assms])
    fix c
    assume "record_ok s cid c"
    then show "record_ok s cid (removeListener c e cbo)"
      by (cases "timers s cid")
         (auto simp: record_ok_def registry_inv_removeListener removeListener_empty)
  qed
  then show ?thesis
    by (simp add: unsubscribe_def Some)
qed

subsection \<open>Publish keeps the invariant\<close>

lemma registry_inv_socket_emit [simp]:
  "registry_inv (c\<lparr>socket := socket_emit (socket c) e d\<rparr>) = registry_inv c"
  by (simp add: registry_inv_def wire_listeners_def registered_def callbacks_def socket_emit_def)

lemma registry_inv_socket_disconnect [simp]:
  "registry_inv (c\<lparr>socket := socket_disconnect (socket c)\<rparr>) = registry_inv c"
  by (simp add: registry_inv_def wire_listeners_def registered_def callbacks_def
      socket_disconnect_def)

lemma handlers_socket_disconnect [simp]: "handlers (socket_disconnect sk) = handlers sk"
  by (simp add: socket_disconnect_def)

lemma manager_ok_publish_body:
  assumes "manager_ok s"
  shows "manager_ok (fst (publish_body s cid u ns e d))"
proof (cases "heap s cid")
  case None
  with assms show ?thesis by (simp add: publish_body_def)
next
  case (Some c)
  show ?thesis
  proof (cases "connected c")
    case False
    with Some assms show ?thesis by (simp add: publish_body_def)
  next
    case True
    from manager_okD [OF assms Some] True have "timers s cid = None"
      by (rule record_ok_connected)
    moreover from manager_okD [OF assms Some] have "registry_inv c"
      by (simp add: record_ok_def)
    ultimately have "manager_ok (s\<lparr>heap := (heap s)(cid \<mapsto> c\<lparr>socket := socket_emit (socket c) e d\<rparr>)\<rparr>)"
      by (intro manager_ok_frame [OF assms, of cid]) (auto simp: record_ok_def)
    with Some True show ?thesis
      by (simp add: publish_body_def)
  qed
qed

lemma manager_ok_publish:
  assumes "manager_ok s"
  shows "manager_ok (fst (publish s u ns e d opts))"
proof -
  obtain s1 r where g: "getOrCreateConnection s u ns opts = (s1, r)"
    by (cases "getOrCreateConnection s u ns opts")
  have ok1: "manager_ok s1"
    using getOrCreate_ok [OF assms, of u ns opts] g by simp
  then show ?thesis
    by (cases r) (simp_all add: publish_def g manager_ok_publish_body)
qed

lemma manager_ok_publish_resume:
  "manager_ok s \<Longrightarrow> manager_ok (fst (publish_resume s cid u ns e d))"
  by (cases "await_connection s cid") (simp_all add: publish_resume_def manager_ok_publish_body)

lemma manager_ok_connections [simp]: "manager_ok (s\<lparr>connections := x\<rparr>) = manager_ok s"
  by (simp add: manager_ok_def record_ok_def)

lemma manager_ok_now [simp]: "manager_ok (s\<lparr>now := x\<rparr>) = manager_ok s"
  by (simp add: manager_ok_def record_ok_def)

lemma manager_ok_invoked [simp]: "manager_ok (s\<lparr>invoked := x\<rparr>) = manager_ok s"
  by (simp add: manager_ok_def record_ok_def)

subsection \<open>Timers keep the invariant\<close>

lemma manager_ok_timer_fired:
  assumes "manager_ok s" and "timers s cid = Some t"
  shows "manager_ok (timer_fired s cid)"
proof (cases "heap s cid")
  case None
  with assms show ?thesis by (simp add: timer_fired_def)
next
  case (Some c)
  from manager_okD [OF assms(1) Some] assms(2)
  have c: "handlers (socket c) = pending_handlers" "listeners c = Map.empty"
      "waits s cid = Some Pending"
    by (simp_all add: record_ok_def)
  have "registry_inv (c\<lparr>socket := socket_off (socket_off (socket c) ''connect'') ''connect_error''\<rparr>)"
    using c(1,2)
    by (simp add: registry_inv_def wire_listeners_def registered_def callbacks_def is_fanout_def
        socket_off_def pending_handlers_def)
  then show ?thesis
    unfolding timer_fired_def Some option.case
    by (intro manager_ok_frame [OF assms(1), of cid])
       (simp_all add: record_ok_def settle_def clearTimeout_def c(3))
qed

lemma manager_ok_fire_due: "manager_ok s \<Longrightarrow> manager_ok (fire_due s cids)"
proof (induction cids arbitrary: s)
  case Nil
  then show ?case by simp
next
  case (Cons cid cids)
  show ?case
  proof (cases "timers s cid")
    case None
    with Cons show ?thesis by simp
  next
    case (Some due)
    with Cons show ?thesis
      by (simp add: manager_ok_timer_fired)
  qed
qed

lemma manager_ok_advance: "manager_ok s \<Longrightarrow> manager_ok (advance s ms)"
  by (simp add: advance_def manager_ok_fire_due)

subsection \<open>Socket events keep the invariant\<close>

lemma registry_inv_cong:
  "listeners c' = listeners c \<Longrightarrow> (\<And>e. wire_listeners c' e = wire_listeners c e) \<Longrightarrow>
     registry_inv c' = registry_inv c"
  by (simp add: registry_inv_def callbacks_def)

lemma fanout_remove1:
  "\<not> is_fanout h \<Longrightarrow>
     filter is_fanout (map snd (filter P (remove1 (n, h) hs)))
       = filter is_fanout (map snd (filter P hs))"
  by (induction hs) auto

lemma registry_inv_once:
  "\<not> is_fanout h \<Longrightarrow>
     registry_inv (c\<lparr>socket := (socket c)\<lparr>handlers := remove1 (n, h) (handlers (socket c))\<rparr>\<rparr>)
       = registry_inv c"
  by (rule registry_inv_cong) (simp_all add: wire_listeners_def registered_def fanout_remove1)

lemma registry_inv_flags [simp]:
  "registry_inv (c\<lparr>connected := b\<rparr>) = registry_inv c"
  "registry_inv (c\<lparr>reconnectAttempts := n\<rparr>) = registry_inv c"
  "registry_inv (c\<lparr>reconnectAttempts := n, connected := b\<rparr>) = registry_inv c"
  "registry_inv (c\<lparr>reconnectAttempts := n, connected := b,
      socket := socket_disconnect (socket (c\<lparr>reconnectAttempts := n, connected := b\<rparr>))\<rparr>)
     = registry_inv c"
  by (rule registry_inv_cong; simp add: wire_listeners_def registered_def)+

lemma is_fanout_simps [simp]:
  "\<not> is_fanout OnConnect" "\<not> is_fanout OnDisconnect" "\<not> is_fanout OnConnectError"
  "\<not> is_fanout OnceConnect" "\<not> is_fanout OnceConnectError" "is_fanout (FanOut e)"
  by (simp_all add: is_fanout_def)

lemmas registry_unfold = registry_inv_def wire_listeners_def registered_def callbacks_def

lemma registry_inv_same:
  "listeners c' = listeners c \<Longrightarrow> handlers (socket c') = handlers (socket c) \<Longrightarrow>
     registry_inv c' = registry_inv c"
  by (simp add: registry_unfold)

lemma settle_simps [simp]:
  "heap (settle s cid p) = heap s"
  "timers (settle s cid p) = timers s"
  "waits (settle s cid p) k = (if k = cid \<and> waits s cid = Some Pending then Some p else waits s k)"
  by (auto simp: settle_def split: option.splits promise.splits)

lemma clearTimeout_simps [simp]:
  "heap (clearTimeout s cid) = heap s"
  "timers (clearTimeout s cid) = (timers s)(cid := None)"
  "waits (clearTimeout s cid) = waits s"
  by (simp_all add: clearTimeout_def)

lemma run_handler_record:
  assumes "heap s cid = Some c" and "registry_inv c"
    and "heap (fst (run_handler s cid h d)) cid = Some c'"
  shows "registry_inv c'"
proof (cases h)
  case OnConnect
  with assms(1,3) have "listeners c' = listeners c \<and> handlers (socket c') = handlers (socket c)"
    by (auto simp: run_handler_def)
  with assms(2) registry_inv_same [of c' c] show ?thesis by simp
next
  case OnDisconnect
  with assms(1,3) have "listeners c' = listeners c \<and> handlers (socket c') = handlers (socket c)"
    by (auto simp: run_handler_def)
  with assms(2) registry_inv_same [of c' c] show ?thesis by simp
next
  case OnConnectError
  with assms(1,3) have "listeners c' = listeners c \<and> handlers (socket c') = handlers (socket c)"
    by (auto simp: run_handler_def Let_def socket_disconnect_def split: if_splits)
  with assms(2) registry_inv_same [of c' c] show ?thesis by simp
next
  case (FanOut e)
  with assms(1,3) have "c' = c"
    by (auto simp: run_handler_def split: option.splits prod.splits)
  with assms(2) show ?thesis by simp
next
  case OnceConnect
  with assms(1,3) have "c' = c\<lparr>socket := (socket c)\<lparr>handlers :=
      remove1 (''connect'', OnceConnect) (handlers (socket c))\<rparr>\<rparr>"
    by (simp add: run_handler_def)
  with assms(2) show ?thesis by (simp add: registry_inv_once)
next
  case OnceConnectError
  with assms(1,3) have "c' = c\<lparr>socket := (socket c)\<lparr>handlers :=
      remove1 (''connect_error'', OnceConnectError) (handlers (socket c))\<rparr>\<rparr>"
    by (simp add: run_handler_def)
  with assms(2) show ?thesis by (simp add: registry_inv_once)
qed

lemma run_handler_ok:
  assumes "manager_ok s" and "timers s cid = None"
  shows "manager_ok (fst (run_handler s cid h d)) \<and> timers (fst (run_handler s cid h d)) cid = None"
proof (cases "heap s cid")
  case None
  with assms show ?thesis by (simp add: run_handler_def)
next
  case (Some c)
  from manager_okD [OF assms(1) Some] have i: "registry_inv c"
    by (simp add: record_ok_def)
  have t: "timers (fst (run_handler s cid h d)) cid = None"
    using assms(2) Some
    by (cases h) (auto simp: run_handler_def Let_def split: option.splits prod.splits)
  have "manager_ok (fst (run_handler s cid h d))"
  proof (rule manager_ok_frame [OF assms(1), of cid])
    fix k
    assume "k \<noteq> cid"
    then show "heap (fst (run_handler s cid h d)) k = heap s k
        \<and> timers (fst (run_handler s cid h d)) k = timers s k
        \<and> waits (fst (run_handler s cid h d)) k = waits s k"
      using Some
      by (cases h) (auto simp: run_handler_def Let_def split: option.splits prod.splits)
  next
    fix c'
    assume "heap (fst (run_handler s cid h d)) cid = Some c'"
    then have "registry_inv c'"
      using Some i by (rule run_handler_record [rotated 2])
    with t show "record_ok (fst (run_handler s cid h d)) cid c'"
      by (simp add: record_ok_def)
  qed
  with t show ?thesis by simp
qed

lemma run_handlers_ok:
  "manager_ok s \<Longrightarrow> timers s cid = None \<Longrightarrow> manager_ok (fst (run_handlers s cid hs d))"
proof (induction hs arbitrary: s)
  case Nil
  then show ?case by simp
next
  case (Cons h hs)
  obtain s1 b where r: "run_handler s cid h d = (s1, b)"
    by (cases "run_handler s cid h d")
  with run_handler_ok [OF Cons.prems, of h d] have "manager_ok s1" "timers s1 cid = None"
    by simp_all
  with Cons.IH [of s1] r show ?case
    by simp
qed

lemma pending_registered:
  "handlers sk = pending_handlers \<Longrightarrow>
     registered sk name =
       (if name = ''connect'' then [OnConnect, OnceConnect]
        else if name = ''disconnect'' then [OnDisconnect]
        else if name = ''connect_error'' then [OnConnectError, OnceConnectError]
        else [])"
  by (simp add: registered_def pending_handlers_def)

lemma registry_inv_plain:
  assumes "listeners c = Map.empty" and "\<forall>x\<in>set (handlers (socket c)). \<not> is_fanout (snd x)"
  shows "registry_inv c"
proof -
  have "filter is_fanout (map snd (filter P hs)) = []"
    if "\<forall>x\<in>set hs. \<not> is_fanout (snd x)" for P and hs :: "(string \<times> handler) list"
    using that by (induction hs) auto
  with assms show ?thesis
    by (simp add: registry_unfold)
qed

lemma deliver_pending_ok:
  assumes "manager_ok s" and "timers s cid = Some t" and "heap s cid = Some c"
  shows "manager_ok (fst (deliver s cid name d))"
proof -
  from manager_okD [OF assms(1,3)] assms(2)
  have c: "handlers (socket c) = pending_handlers" "listeners c = Map.empty" "\<not> connected c"
      "waits s cid = Some Pending"
    by (simp_all add: record_ok_def)
  show ?thesis
  proof (rule manager_ok_frame [OF assms(1), of cid])
    fix k
    assume "k \<noteq> cid"
    then show "heap (fst (deliver s cid name d)) k = heap s k
        \<and> timers (fst (deliver s cid name d)) k = timers s k
        \<and> waits (fst (deliver s cid name d)) k = waits s k"
      using assms(3) c(1,4)
      by (simp add: deliver_def pending_registered run_handler_def Let_def)
  next
    fix c'
    assume h: "heap (fst (deliver s cid name d)) cid = Some c'"
    have "listeners c' = Map.empty \<and> (\<forall>x\<in>set (handlers (socket c')). \<not> is_fanout (snd x))
        \<and> (timers (fst (deliver s cid name d)) cid \<noteq> None \<longrightarrow>
             handlers (socket c') = pending_handlers \<and> \<not> connected c'
           \<and> waits (fst (deliver s cid name d)) cid = Some Pending)"
      using h assms(2,3) c
      by (auto simp: deliver_def pending_registered run_handler_def Let_def pending_handlers_def
          socket_disconnect_def split: if_splits)
    then show "record_ok (fst (deliver s cid name d)) cid c'"
      by (simp add: record_ok_def registry_inv_plain)
  qed
qed

lemma manager_ok_deliver:
  assumes "manager_ok s"
  shows "manager_ok (fst (deliver s cid name d))"
proof (cases "heap s cid")
  case None
  with assms show ?thesis by (simp add: deliver_def)
next
  case (Some c)
  show ?thesis
  proof (cases "timers s cid")
    case None
    with assms Some show ?thesis
      by (simp add: deliver_def run_handlers_ok)
  next
    case (Some t)
    with assms \<open>heap s cid = Some c\<close> show ?thesis
      by (simp add: deliver_pending_ok)
  qed
qed

lemma manager_ok_socket_disconnect_call:
  assumes "manager_ok s"
  shows "manager_ok (fst (socket_disconnect_call s cid))"
proof (cases "heap s cid")
  case None
  with assms show ?thesis by (simp add: socket_disconnect_call_def)
next
  case (Some c)
  have "manager_ok (on_record s cid (\<lambda>c. c\<lparr>socket := socket_disconnect (socket c)\<rparr>))"
    by (rule manager_ok_on_record [OF assms]) (simp add: record_ok_def)
  then have ok: "manager_ok (s\<lparr>heap := (heap s)(cid \<mapsto> c\<lparr>socket := socket_disconnect (socket c)\<rparr>)\<rparr>)"
    by (simp add: on_record_def Some)
  show ?thesis
    using ok manager_ok_deliver [OF ok, of cid "''disconnect''" "''io client disconnect''"]
    by (simp add: socket_disconnect_call_def Some Let_def)
qed

lemma manager_ok_disconnect:
  assumes "manager_ok s"
  shows "manager_ok (disconnect s u ns)"
proof (cases "connections s (getConnectionKey u ns)")
  case None
  with assms show ?thesis by (simp add: disconnect_def)
next
  case (Some cid)
  obtain s1 threw where r: "socket_disconnect_call s cid = (s1, threw)"
    by (cases "socket_disconnect_call s cid")
  with manager_ok_socket_disconnect_call [OF assms, of cid] have "manager_ok s1"
    by simp
  with Some r show ?thesis
    by (simp add: disconnect_def)
qed

text \<open>
  \<open>disconnect\<close> on a connected record: the \<open>disconnect\<close> listener of the manager
  has run, so the removed record has its flag cleared and its socket closed.
\<close>

lemma disconnect_connected_record:
  "connections (disconnect ex_connected ex_url ''/'') (getConnectionKey ex_url ''/'') = None"
  "map_option connected (heap (disconnect ex_connected ex_url ''/'') 0) = Some False"
  "map_option closed (socket_of (disconnect ex_connected ex_url ''/'') 0) = Some True"
  "\<not> disconnect_throws ex_connected ex_url ''/''"
  by (simp_all add: disconnect_def disconnect_throws_def socket_disconnect_call_def manager_defs
      scenario_defs)

lemma reachable_ok: "reachable s \<Longrightarrow> manager_ok s"
proof (induction rule: reachable.induct)
  case r_init
  show ?case by (rule manager_ok_init)
qed (simp_all add: manager_ok_connect manager_ok_subscribe manager_ok_subscribe_resume
      manager_ok_unsubscribe manager_ok_publish manager_ok_publish_resume manager_ok_disconnect
      manager_ok_deliver manager_ok_advance)

lemma manager_ok_inv: "manager_ok s \<Longrightarrow> manager_inv s"
  by (simp add: manager_ok_def manager_inv_def record_ok_def)

lemma reachable_scenarios:
  "reachable ex_pending" "reachable ex_connected" "reachable ex_shared"
  unfolding ex_pending_def ex_connected_def ex_shared_def
  by (intro reachable.intros)+

lemma reachable_record:
  "reachable s \<Longrightarrow> heap s cid = Some c \<Longrightarrow> registry_inv c"
  using reachable_ok [of s] by (simp add: manager_ok_def record_ok_def)

section \<open>Repeated subscription\<close>

subsection \<open>Delivery with callbacks that may throw\<close>






subsection \<open>On a connected record\<close>

lemma existingConnected_record:
  "existingConnected s key = Some cid \<Longrightarrow>
     \<exists>c. connections s key = Some cid \<and> heap s cid = Some c \<and> connected c"
  by (auto simp: existingConnected_def split: option.splits if_splits)

lemma subscribe_resume_connected:
  assumes "connections s (getConnectionKey u ns) = Some cid" and "heap s cid = Some c"
    and "connected c" and "waits s cid = Some Resolved"
  shows "subscribe_resume s cid e cb = subscribe s u ns e cb opts"
  using assms
  by (simp add: subscribe_resume_def await_connection_def subscribe_connected subscribe_body_def
      on_record_def)


lemma subscribe_again_on_record:
  assumes "connections s (getConnectionKey u ns) = Some cid" and "heap s cid = Some c"
    and "connected c" and "registry_inv c"
  shows "subscribe (fst (subscribe s u ns e cb o1)) u ns e cb o2 = subscribe s u ns e cb o1
    \<and> count_list (callbacks_of (fst (subscribe s u ns e cb o1)) cid e) cb = 1
    \<and> wire_of (fst (subscribe s u ns e cb o1)) cid e = [FanOut e]"
proof -
  define c1 where "c1 = addListener c e cb"
  define s1 where "s1 = s\<lparr>heap := (heap s)(cid \<mapsto> c1)\<rparr>"
  have r1: "subscribe s u ns e cb o1 = (s1, Returned ())"
    using assms(1-3) by (simp add: subscribe_connected s1_def c1_def)
  have "connections s1 (getConnectionKey u ns) = Some cid" "heap s1 cid = Some c1" "connected c1"
    using assms(1,3) by (simp_all add: s1_def c1_def connected_addListener)
  then have "subscribe s1 u ns e cb o2
      = (s1\<lparr>heap := (heap s1)(cid \<mapsto> addListener c1 e cb)\<rparr>, Returned ())"
    by (simp add: subscribe_connected)
  also have "addListener c1 e cb = c1"
    by (simp add: c1_def addListener_idem)
  also have "s1\<lparr>heap := (heap s1)(cid \<mapsto> c1)\<rparr> = s1"
    by (simp add: s1_def)
  finally have r2: "subscribe s1 u ns e cb o2 = (s1, Returned ())" .
  have i1: "registry_inv c1"
    using assms(4) by (simp add: c1_def registry_inv_addListener)
  then have "distinct (callbacks c1 e)"
    by (simp add: registry_inv_def)
  moreover have "cb \<in> set (callbacks c1 e)"
    by (simp add: c1_def callbacks_addListener set_set_add)
  ultimately have n: "count_list (callbacks_of s1 cid e) cb = 1"
    by (simp add: s1_def observe_update count_list_distinct)
  have w: "wire_of s1 cid e = [FanOut e]"
    using assms(4) by (simp add: s1_def observe_update c1_def wire_after_addListener)
  show ?thesis
    using n w by (simp add: r1 r2)
qed

subsection \<open>On a key with no connected record\<close>

lemma subscribe_unconnected:
  assumes "existingConnected s (getConnectionKey u ns) = None"
  shows "snd (subscribe s u ns e cb opts) = Suspended (next_id s)"
    and "next_id (fst (subscribe s u ns e cb opts)) = Suc (next_id s)"
    and "connections (fst (subscribe s u ns e cb opts)) (getConnectionKey u ns) = Some (next_id s)"
    and "existingConnected (fst (subscribe s u ns e cb opts)) (getConnectionKey u ns) = None"
    and "map_option uri (socket_of (fst (subscribe s u ns e cb opts)) (next_id s)) = Some (u @ ns)"
    and "wire_of (fst (subscribe s u ns e cb opts)) (next_id s) e' = []"
    and "callbacks_of (fst (subscribe s u ns e cb opts)) (next_id s) e' = []"
    and "k \<noteq> next_id s \<Longrightarrow> heap (fst (subscribe s u ns e cb opts)) k = heap s k"
  using assms
  by (simp_all add: subscribe_def getOrCreateConnection_def existingConnected_def manager_defs
      socket_of_def wire_of_def wire_listeners_def callbacks_of_def callbacks_def is_fanout_def)

lemma subscribe_twice_unconnected:
  assumes "existingConnected s (getConnectionKey u ns) = None"
  shows "let r1 = subscribe s u ns e cb o1;
             r2 = subscribe (fst r1) u ns e cb2 o2
         in snd r1 = Suspended (next_id s) \<and> snd r2 = Suspended (Suc (next_id s))
          \<and> next_id (fst r1) = Suc (next_id s) \<and> next_id (fst r2) = Suc (Suc (next_id s))
          \<and> connections (fst r1) (getConnectionKey u ns) = Some (next_id s)
          \<and> connections (fst r2) (getConnectionKey u ns) = Some (Suc (next_id s))
          \<and> map_option uri (socket_of (fst r2) (next_id s)) = Some (u @ ns)
          \<and> map_option uri (socket_of (fst r2) (Suc (next_id s))) = Some (u @ ns)
          \<and> wire_of (fst r2) (next_id s) e = [] \<and> wire_of (fst r2) (Suc (next_id s)) e = []"
proof -
  define s1 where "s1 = fst (subscribe s u ns e cb o1)"
  note a = subscribe_unconnected [OF assms, where e = e and cb = cb and opts = o1,
      folded s1_def]
  note b = subscribe_unconnected [OF a(4), where e = e and cb = cb2 and opts = o2,
      unfolded a(2)]
  have "heap (fst (subscribe s1 u ns e cb2 o2)) (next_id s) = heap s1 (next_id s)"
    by (rule b(8)) simp
  then have "socket_of (fst (subscribe s1 u ns e cb2 o2)) (next_id s) = socket_of s1 (next_id s)"
      "wire_of (fst (subscribe s1 u ns e cb2 o2)) (next_id s) e = wire_of s1 (next_id s) e"
    by (simp_all add: socket_of_def wire_of_def)
  with a b show ?thesis
    by (simp add: s1_def [symmetric] Let_def)
qed

lemma scenario_facts:
  "existingConnected ex_connected (getConnectionKey ex_url ''/'') = Some 0"
  "waits ex_connected 0 = Some Resolved"
  "invoked ex_connected = []"
  "callbacks_of ex_connected 0 ''x'' = []"
  "existingConnected init (getConnectionKey ex_url ''/'') = None"
  "next_id init = 0"
  by (simp_all add: manager_defs scenario_defs callbacks_of_def callbacks_def)

lemmas subscribe_defs =
  subscribe_def getOrCreateConnection_def subscribe_resume_def subscribe_body_def on_record_def
  addListener_def set_add_def callbacks_of_def callbacks_def wire_of_def wire_listeners_def
  is_fanout_def

subsection \<open>Two subscriptions with different callbacks\<close>




subsection \<open>Two subscriptions with the same callback\<close>

text \<open>
  C10, as the code has it. In every reachable state, for a key whose registered record is
  connected, a second \<open>subscribe\<close> with the same event and callback returns the manager
  that the first one returned, in which the callback occurs once in the set of the event
  and the event has exactly one wire-level listener; this also holds when the first call
  is the resumption of a \<open>subscribe\<close> that had waited for the handshake of that record.
  For a key with no connected record the second call allocates a second record, so that
  the manager after two calls is not the manager after one.
\<close>

theorem subscribe_idempotent_when_connected:
  assumes "reachable s"
  shows "(existingConnected s (getConnectionKey u ns) = Some cid \<longrightarrow>
            subscribe (fst (subscribe s u ns e cb o1)) u ns e cb o2 = subscribe s u ns e cb o1
          \<and> (waits s cid = Some Resolved \<longrightarrow>
               subscribe_resume s cid e cb = subscribe s u ns e cb o1
             \<and> subscribe (fst (subscribe_resume s cid e cb)) u ns e cb o2
                 = subscribe_resume s cid e cb)
          \<and> count_list (callbacks_of (fst (subscribe s u ns e cb o1)) cid e) cb = 1
          \<and> wire_of (fst (subscribe s u ns e cb o1)) cid e = [FanOut e])
       \<and> (existingConnected s (getConnectionKey u ns) = None \<longrightarrow>
            snd (subscribe s u ns e cb o1) = Suspended (next_id s)
          \<and> snd (subscribe (fst (subscribe s u ns e cb o1)) u ns e cb o2)
              = Suspended (Suc (next_id s))
          \<and> next_id (fst (subscribe s u ns e cb o1)) = Suc (next_id s)
          \<and> next_id (fst (subscribe (fst (subscribe s u ns e cb o1)) u ns e cb o2))
              = Suc (Suc (next_id s))
          \<and> fst (subscribe (fst (subscribe s u ns e cb o1)) u ns e cb o2)
              \<noteq> fst (subscribe s u ns e cb o1))"
proof (intro conjI impI)
  assume "existingConnected s (getConnectionKey u ns) = Some cid"
  then obtain c where c: "connections s (getConnectionKey u ns) = Some cid"
      "heap s cid = Some c" "connected c"
    using existingConnected_record by blast
  have i: "registry_inv c"
    using assms c(2) by (rule reachable_record)
  note t = subscribe_again_on_record [OF c i, of e cb o1 o2]
  from t show "subscribe (fst (subscribe s u ns e cb o1)) u ns e cb o2 = subscribe s u ns e cb o1"
    and "count_list (callbacks_of (fst (subscribe s u ns e cb o1)) cid e) cb = 1"
    and "wire_of (fst (subscribe s u ns e cb o1)) cid e = [FanOut e]"
    by blast+
  assume "waits s cid = Some Resolved"
  with c show r: "subscribe_resume s cid e cb = subscribe s u ns e cb o1"
    by (rule subscribe_resume_connected)
  from t show "subscribe (fst (subscribe_resume s cid e cb)) u ns e cb o2
      = subscribe_resume s cid e cb"
    by (simp add: r)
next
  assume n: "existingConnected s (getConnectionKey u ns) = None"
  note t = subscribe_twice_unconnected [OF n, of e cb o1 cb o2, unfolded Let_def]
  from t show "snd (subscribe s u ns e cb o1) = Suspended (next_id s)"
    and "snd (subscribe (fst (subscribe s u ns e cb o1)) u ns e cb o2)
              = Suspended (Suc (next_id s))"
    and a: "next_id (fst (subscribe s u ns e cb o1)) = Suc (next_id s)"
    and b: "next_id (fst (subscribe (fst (subscribe s u ns e cb o1)) u ns e cb o2))
              = Suc (Suc (next_id s))"
    by blast+
  show "fst (subscribe (fst (subscribe s u ns e cb o1)) u ns e cb o2)
      \<noteq> fst (subscribe s u ns e cb o1)"
  proof
    assume "fst (subscribe (fst (subscribe s u ns e cb o1)) u ns e cb o2)
        = fst (subscribe s u ns e cb o1)"
    then have "next_id (fst (subscribe (fst (subscribe s u ns e cb o1)) u ns e cb o2))
        = next_id (fst (subscribe s u ns e cb o1))"
      by simp
    with a b show False by simp
  qed
qed

theorem subscribe_idempotent_when_connected_witness:
  "existingConnected ex_connected (getConnectionKey ex_url ''/'') = Some 0
   \<and> waits ex_connected 0 = Some Resolved
   \<and> subscribe (fst (subscribe ex_connected ex_url ''/'' ''x'' (Callback 1 False) None))
        ex_url ''/'' ''x'' (Callback 1 False) None
       = subscribe ex_connected ex_url ''/'' ''x'' (Callback 1 False) None
   \<and> subscribe (fst (subscribe_resume ex_connected 0 ''x'' (Callback 1 False)))
        ex_url ''/'' ''x'' (Callback 1 False) None
       = subscribe_resume ex_connected 0 ''x'' (Callback 1 False)
   \<and> callbacks_of (fst (subscribe_resume ex_connected 0 ''x'' (Callback 1 False))) 0 ''x''
       = [Callback 1 False]
   \<and> wire_of (fst (subscribe_resume ex_connected 0 ''x'' (Callback 1 False))) 0 ''x''
       = [FanOut ''x'']
   \<and> existingConnected init (getConnectionKey ex_url ''/'') = None
   \<and> next_id (fst (subscribe init ex_url ''/'' ''x'' (Callback 1 False) None)) = 1
   \<and> next_id (fst (subscribe (fst (subscribe init ex_url ''/'' ''x'' (Callback 1 False) None))
        ex_url ''/'' ''x'' (Callback 1 False) None)) = 2"
proof -
  note a = subscribe_idempotent_when_connected [OF reachable_scenarios(2),
      of ex_url "''/''" 0 "''x''" "Callback 1 False" None None]
  note b = subscribe_idempotent_when_connected [OF reachable.r_init,
      of ex_url "''/''" 0 "''x''" "Callback 1 False" None None]
  have r: "subscribe_resume ex_connected 0 ''x'' (Callback 1 False)
       = subscribe ex_connected ex_url ''/'' ''x'' (Callback 1 False) None"
    using a scenario_facts(1,2) by simp
  have one: "callbacks_of (fst (subscribe ex_connected ex_url ''/'' ''x'' (Callback 1 False) None))
      0 ''x'' = [Callback 1 False]"
    by (simp add: manager_defs scenario_defs subscribe_defs)
  show ?thesis
    unfolding r
    using a b one scenario_facts
    by simp
qed

theorem subscribe_again_second_record_counterexample:
  "fst (subscribe (fst (subscribe init ex_url ''/'' ''x'' (Callback 1 False) None))
        ex_url ''/'' ''x'' (Callback 1 False) None)
     \<noteq> fst (subscribe init ex_url ''/'' ''x'' (Callback 1 False) None)
   \<and> next_id (fst (subscribe init ex_url ''/'' ''x'' (Callback 1 False) None)) = 1
   \<and> next_id (both_pending (Callback 1 False) (Callback 1 False)) = 2
   \<and> wire_of (both_resumed (Callback 1 False) (Callback 1 False)) 0 ''x'' = [FanOut ''x'']
   \<and> wire_of (both_resumed (Callback 1 False) (Callback 1 False)) 1 ''x'' = [FanOut ''x'']
   \<and> invoked (fst (deliver (fst (deliver (both_resumed (Callback 1 False) (Callback 1 False))
        0 ''x'' ''m'')) 1 ''x'' ''m''))
       = [(Callback 1 False, ''m''), (Callback 1 False, ''m'')]"
proof -
  have n: "next_id (fst (subscribe init ex_url ''/'' ''x'' (Callback 1 False) None)) = 1"
    "next_id (both_pending (Callback 1 False) (Callback 1 False)) = 2"
    by (simp_all add: both_pending_def manager_defs scenario_defs subscribe_defs)
  then have "fst (subscribe (fst (subscribe init ex_url ''/'' ''x'' (Callback 1 False) None))
        ex_url ''/'' ''x'' (Callback 1 False) None)
     \<noteq> fst (subscribe init ex_url ''/'' ''x'' (Callback 1 False) None)"
    by (auto simp: both_pending_def)
  moreover have "wire_of (both_resumed (Callback 1 False) (Callback 1 False)) 0 ''x'' = [FanOut ''x'']
     \<and> wire_of (both_resumed (Callback 1 False) (Callback 1 False)) 1 ''x'' = [FanOut ''x'']
     \<and> invoked (fst (deliver (fst (deliver (both_resumed (Callback 1 False) (Callback 1 False))
        0 ''x'' ''m'')) 1 ''x'' ''m''))
       = [(Callback 1 False, ''m''), (Callback 1 False, ''m'')]"
    by (simp add: both_resumed_def both_pending_def manager_defs scenario_defs subscribe_defs)
  ultimately show ?thesis
    using n by blast
qed

end
